theory Spec2Isabelle
  imports Complex_Main "HOL-Library.Multiset"
begin

text \<open>
  The program reads trade-execution logs exported as CSV, keeps the filled orders as a
  table of trades ordered by time (\<open>load_and_clean_data\<close>), and computes statistics of
  the profit and loss of the trades: Sharpe ratio, profit factor, maximum drawdown and
  the longest winning and losing streaks. This theory models both parts and settles
  what the specification says of them. The statistics come first; they are functions of
  one column. The normalizer follows, with pandas and numpy, which it calls at every
  step, as a parameter.
\<close>

section \<open>Metrics engine: float columns\<close>

text \<open>
  A cell of a pandas float64 column is a finite number or NaN; NaN is also how pandas
  stores a missing value. \<open>None\<close> is NaN. The arithmetic of finite cells is that of the
  reals: rounding and the infinities of IEEE arithmetic are outside this model.
\<close>

type_synonym float = "real option"
type_synonym series = "float list"

fun fsub :: "float \<Rightarrow> float \<Rightarrow> float" where
  "fsub (Some x) (Some y) = Some (x - y)"
| "fsub _ _ = None"

fun fmul :: "float \<Rightarrow> float \<Rightarrow> float" where
  "fmul (Some x) (Some y) = Some (x * y)"
| "fmul _ _ = None"

text \<open>
  A finite cell divided by zero is an infinity or NaN in numpy; neither statistic below
  ever divides by zero (lemmas \<open>sharpe_divisor\<close> and \<open>profit_ratio_divisor\<close>), and the
  model returns NaN there.
\<close>

fun fdiv :: "float \<Rightarrow> float \<Rightarrow> float" where
  "fdiv (Some x) (Some y) = (if y = 0 then None else Some (x / y))"
| "fdiv _ _ = None"

fun fneg :: "float \<Rightarrow> float" where
  "fneg (Some x) = Some (- x)"
| "fneg None = None"

text \<open>Comparisons with NaN are false.\<close>

fun gt0 :: "float \<Rightarrow> bool" where
  "gt0 (Some x) = (0 < x)"
| "gt0 None = False"

fun lt0 :: "float \<Rightarrow> bool" where
  "lt0 (Some x) = (x < 0)"
| "lt0 None = False"

text \<open>The non-missing values of a column, in order (what \<open>skipna=True\<close> keeps).\<close>

fun notna :: "series \<Rightarrow> real list" where
  "notna [] = []"
| "notna (None # xs) = notna xs"
| "notna (Some x # xs) = x # notna xs"

text \<open>\<open>Series.mean()\<close>: the mean of the non-missing values, NaN when there is none.\<close>

definition series_mean :: "series \<Rightarrow> float" where
  "series_mean s =
     (let vs = notna s in
      if vs = [] then None else Some (sum_list vs / real (length vs)))"

text \<open>
  \<open>Series.std()\<close>, with the default \<open>ddof=1\<close>: NaN when the count of non-missing values
  is at most \<open>ddof\<close>, else the root of the sum of squared deviations over \<open>count - ddof\<close>.
\<close>

definition series_var :: "series \<Rightarrow> float" where
  "series_var s =
     (let vs = notna s; count = length vs in
      if count \<le> 1 then None
      else let avg = sum_list vs / real count
           in Some (sum_list (map (\<lambda>v. (avg - v)\<^sup>2) vs) / real (count - 1)))"

definition series_std :: "series \<Rightarrow> float" where
  "series_std s = map_option sqrt (series_var s)"

text \<open>\<open>Series.min()\<close> and \<open>Series.max()\<close>: over the non-missing values, NaN when there is none.\<close>

definition series_min :: "series \<Rightarrow> float" where
  "series_min s = (let vs = notna s in if vs = [] then None else Some (Min (set vs)))"

text \<open>
  \<open>Series.cumsum()\<close>: the running sum skips a missing cell and leaves NaN in its place.
\<close>

fun cumsum_from :: "real \<Rightarrow> series \<Rightarrow> series" where
  "cumsum_from acc [] = []"
| "cumsum_from acc (None # xs) = None # cumsum_from acc xs"
| "cumsum_from acc (Some x # xs) = Some (acc + x) # cumsum_from (acc + x) xs"

definition cumsum :: "series \<Rightarrow> series" where
  "cumsum s = cumsum_from 0 s"

text \<open>
  \<open>Series.cummax()\<close>: the running maximum, again with NaN left at a missing cell. The
  accumulator is \<open>None\<close> until the first value has been seen.
\<close>

fun cummax_from :: "real option \<Rightarrow> series \<Rightarrow> series" where
  "cummax_from m [] = []"
| "cummax_from m (None # xs) = None # cummax_from m xs"
| "cummax_from m (Some x # xs) =
     (let m' = (case m of None \<Rightarrow> x | Some y \<Rightarrow> max y x)
      in Some m' # cummax_from (Some m') xs)"

definition cummax :: "series \<Rightarrow> series" where
  "cummax s = cummax_from None s"

section \<open>Metrics engine: the summary statistics\<close>

text \<open>
  Each statistic is a function of the profit-and-loss column of the selected trades
  (\<open>df_trades['\<dots>']\<close> after the symbol filter), in row order.
\<close>

definition cumulative_pnl :: "series \<Rightarrow> series" where
  "cumulative_pnl pnl = cumsum pnl"

text \<open>
  \<open>mean / std * sqrt(252) if std != 0 else 0\<close>. The guard compares floats: NaN differs
  from 0, so a NaN deviation takes the first branch.
\<close>

definition sharpe :: "series \<Rightarrow> float" where
  "sharpe pnl =
     (if series_std pnl \<noteq> Some 0
      then fmul (fdiv (series_mean pnl) (series_std pnl)) (Some (sqrt 252))
      else Some 0)"

text \<open>\<open>winners.mean() / -losers.mean() if not losers.empty else nan\<close>.\<close>

definition profit_ratio :: "series \<Rightarrow> float" where
  "profit_ratio pnl =
     (if filter lt0 pnl \<noteq> []
      then fdiv (series_mean (filter gt0 pnl)) (fneg (series_mean (filter lt0 pnl)))
      else None)"

definition drawdowns :: "series \<Rightarrow> series" where
  "drawdowns pnl = map2 fsub (cumulative_pnl pnl) (cummax (cumulative_pnl pnl))"

definition max_drawdown :: "series \<Rightarrow> float" where
  "max_drawdown pnl = series_min (drawdowns pnl)"

subsection \<open>Streaks\<close>

text \<open>\<open>apply(lambda x: 1 if x > 0 else -1)\<close>: NaN and zero are classified \<open>-1\<close>.\<close>

definition results :: "series \<Rightarrow> int list" where
  "results pnl = map (\<lambda>x. if gt0 x then 1 else - 1) pnl"

text \<open>\<open>shift()\<close> moves every value one row down and puts a missing value first.\<close>

definition shift :: "int list \<Rightarrow> int option list" where
  "shift rs = take (length rs) (None # map Some rs)"

definition ne :: "int list \<Rightarrow> int option list \<Rightarrow> bool list" where
  "ne rs ss = map2 (\<lambda>r s. Some r \<noteq> s) rs ss"

fun bool_cumsum_from :: "nat \<Rightarrow> bool list \<Rightarrow> nat list" where
  "bool_cumsum_from c [] = []"
| "bool_cumsum_from c (b # bs) =
     (let c' = (if b then Suc c else c) in c' # bool_cumsum_from c' bs)"

definition streaks :: "int list \<Rightarrow> nat list" where
  "streaks rs = bool_cumsum_from 0 (ne rs (shift rs))"

text \<open>
  \<open>rs[mask].groupby(streaks)\<close>: the rows that pass the mask, each with the key that
  \<open>streaks\<close> has at the same index. \<open>size()\<close> counts the rows of each key, keys ascending;
  \<open>max()\<close> of no sizes is NaN (\<open>None\<close>).
\<close>

definition masked_keys :: "(int \<Rightarrow> bool) \<Rightarrow> int list \<Rightarrow> nat list \<Rightarrow> nat list" where
  "masked_keys keep rs ks = map snd (filter (\<lambda>(r, k). keep r) (zip rs ks))"

definition groupby_size :: "nat list \<Rightarrow> (nat \<times> nat) list" where
  "groupby_size ks = map (\<lambda>k. (k, length (filter (\<lambda>j. j = k) ks))) (sort (remdups ks))"

definition size_max :: "(nat \<times> nat) list \<Rightarrow> nat option" where
  "size_max g = (if g = [] then None else Some (Max (set (map snd g))))"

definition win_streaks :: "series \<Rightarrow> (nat \<times> nat) list" where
  "win_streaks pnl =
     (let rs = results pnl in groupby_size (masked_keys (\<lambda>r. 0 < r) rs (streaks rs)))"

definition loss_streaks :: "series \<Rightarrow> (nat \<times> nat) list" where
  "loss_streaks pnl =
     (let rs = results pnl in groupby_size (masked_keys (\<lambda>r. r < 0) rs (streaks rs)))"

definition max_win_streak :: "series \<Rightarrow> nat option" where
  "max_win_streak pnl = size_max (win_streaks pnl)"

definition max_loss_streak :: "series \<Rightarrow> nat option" where
  "max_loss_streak pnl = size_max (loss_streaks pnl)"

text \<open>
  The specification's reading of a streak, independent of the code above: the maximal
  runs of equal neighbours, each as its value and its length.
\<close>

fun runs :: "'a list \<Rightarrow> ('a \<times> nat) list" where
  "runs [] = []"
| "runs (x # xs) =
     (case runs xs of
        [] \<Rightarrow> [(x, 1)]
      | (y, n) # rest \<Rightarrow> if x = y then (y, Suc n) # rest else (x, 1) # (y, n) # rest)"

definition run_lengths :: "int \<Rightarrow> int list \<Rightarrow> nat list" where
  "run_lengths s rs = map snd (filter (\<lambda>(v, n). v = s) (runs rs))"

text \<open>
  The specification's classification of a trade, written from its words: \<open>+1\<close> when the
  profit and loss is greater than 0, \<open>-1\<close> otherwise, that is for a loss, for zero and for
  a missing value.
\<close>

fun classify :: "float \<Rightarrow> int" where
  "classify None = - 1"
| "classify (Some x) = (if 0 < x then 1 else - 1)"

text \<open>
  The specification's reading of the cumulative series: the sum of the profit and loss
  over rows \<open>0..i\<close>, a missing value counting as 0.
\<close>

fun null_as_zero :: "float \<Rightarrow> real" where
  "null_as_zero None = 0"
| "null_as_zero (Some x) = x"

definition prefix_sum :: "series \<Rightarrow> nat \<Rightarrow> real" where
  "prefix_sum pnl i = sum_list (map null_as_zero (take (Suc i) pnl))"

text \<open>\<open>x <= 0\<close> on a float: false for NaN.\<close>

fun le0 :: "float \<Rightarrow> bool" where
  "le0 (Some x) = (x \<le> 0)"
| "le0 None = False"

text \<open>
  The drawdown column with the running maximum started from a given accumulator; the
  drawdown column of the program is the one started from no value.
\<close>

definition dd_from :: "real option \<Rightarrow> series \<Rightarrow> series" where
  "dd_from m xs = map2 fsub xs (cummax_from m xs)"

text \<open>
  Runs written out again as the list they describe, and the longest of a list of
  lengths (undefined, \<open>None\<close>, for no lengths).
\<close>

definition expand :: "('a \<times> nat) list \<Rightarrow> 'a list" where
  "expand bs = concat (map (\<lambda>(v, n). replicate n v) bs)"

definition longest :: "nat list \<Rightarrow> nat option" where
  "longest ns = (if ns = [] then None else Some (Max (set ns)))"

text \<open>
  \<open>streaks\<close> as one pass: the previous classification and the running count of changes.
\<close>

fun streaks_from :: "int option \<Rightarrow> nat \<Rightarrow> int list \<Rightarrow> nat list" where
  "streaks_from prev c [] = []"
| "streaks_from prev c (r # rs) =
     (let c' = (if Some r \<noteq> prev then Suc c else c) in c' # streaks_from (Some r) c' rs)"

section \<open>Trade normalizer: text of an export file\<close>

text \<open>
  An uploaded file is a sequence of bytes, one \<open>char\<close> each. \<open>decode('utf-8')\<close> raises
  on an ill-formed sequence and otherwise yields the text; the model keeps the text in
  its UTF-8 bytes, on which the searches for ASCII markers below see what Python sees on
  code points.
\<close>

datatype error =
    UnicodeDecodeError
  | IndexError
  | ValueError
  | EmptyDataError
  | ParserError
  | KeyError "string list"

fun and_then :: "error + 'a \<Rightarrow> ('a \<Rightarrow> error + 'b) \<Rightarrow> error + 'b" where
  "and_then (Inl e) f = Inl e"
| "and_then (Inr x) f = f x"

definition in_range :: "nat \<Rightarrow> nat \<Rightarrow> nat \<Rightarrow> bool" where
  "in_range lo hi b = (lo \<le> b \<and> b \<le> hi)"

text \<open>Well-formed UTF-8: no overlong form, no surrogate, nothing above U+10FFFF.\<close>

fun utf8_ok :: "nat list \<Rightarrow> bool" where
  "utf8_ok [] = True"
| "utf8_ok (b0 # bs) =
     (if b0 < 0x80 then utf8_ok bs
      else if in_range 0xC2 0xDF b0 then
        (case bs of b1 # r \<Rightarrow> in_range 0x80 0xBF b1 \<and> utf8_ok r | _ \<Rightarrow> False)
      else if in_range 0xE0 0xEF b0 then
        (case bs of
           b1 # b2 # r \<Rightarrow>
             (if b0 = 0xE0 then in_range 0xA0 0xBF b1
              else if b0 = 0xED then in_range 0x80 0x9F b1
              else in_range 0x80 0xBF b1) \<and>
             in_range 0x80 0xBF b2 \<and> utf8_ok r
         | _ \<Rightarrow> False)
      else if in_range 0xF0 0xF4 b0 then
        (case bs of
           b1 # b2 # b3 # r \<Rightarrow>
             (if b0 = 0xF0 then in_range 0x90 0xBF b1
              else if b0 = 0xF4 then in_range 0x80 0x8F b1
              else in_range 0x80 0xBF b1) \<and>
             in_range 0x80 0xBF b2 \<and> in_range 0x80 0xBF b3 \<and> utf8_ok r
         | _ \<Rightarrow> False)
      else False)"

definition decode :: "string \<Rightarrow> error + string" where
  "decode bytes = (if utf8_ok (map of_char bytes) then Inr bytes else Inl UnicodeDecodeError)"

text \<open>
  \<open>str.splitlines()\<close>: a line ends at LF, CR, CR LF, VT, FF, FS, GS, RS, NEL (U+0085),
  U+2028 or U+2029; the terminators are dropped and a final terminator opens no empty
  line. \<open>linebreak\<close> is the number of bytes of the terminator a text starts with, 0 for
  none.
\<close>

fun linebreak :: "string \<Rightarrow> nat" where
  "linebreak [] = 0"
| "linebreak (c # cs) =
     (if c = CHR 0x0D then (case cs of d # _ \<Rightarrow> if d = CHR 0x0A then 2 else 1 | [] \<Rightarrow> 1)
      else if c = CHR 0x0A \<or> c = CHR 0x0B \<or> c = CHR 0x0C \<or>
              c = CHR 0x1C \<or> c = CHR 0x1D \<or> c = CHR 0x1E then 1
      else if c = CHR 0xC2 then (case cs of d # _ \<Rightarrow> if d = CHR 0x85 then 2 else 0 | [] \<Rightarrow> 0)
      else if c = CHR 0xE2 then
        (case cs of
           d # e # _ \<Rightarrow> if d = CHR 0x80 \<and> (e = CHR 0xA8 \<or> e = CHR 0xA9) then 3 else 0
         | _ \<Rightarrow> 0)
      else 0)"

function splitlines_from :: "string \<Rightarrow> string \<Rightarrow> string list" where
  "splitlines_from cur s =
     (if s = [] then (if cur = [] then [] else [rev cur])
      else if linebreak s = 0 then splitlines_from (hd s # cur) (tl s)
      else rev cur # splitlines_from [] (drop (linebreak s) s))"
  by pat_completeness auto
termination
  by (relation "measure (\<lambda>(cur, s). length s)") auto

declare splitlines_from.simps [simp del]

definition splitlines :: "string \<Rightarrow> string list" where
  "splitlines s = splitlines_from [] s"

text \<open>\<open>pat in s\<close> on strings.\<close>

fun starts_with :: "string \<Rightarrow> string \<Rightarrow> bool" where
  "starts_with [] s = True"
| "starts_with (p # ps) [] = False"
| "starts_with (p # ps) (c # cs) = (if p = c then starts_with ps cs else False)"

fun contains :: "string \<Rightarrow> string \<Rightarrow> bool" where
  "contains pat [] = (pat = [])"
| "contains pat (c # cs) = (if starts_with pat (c # cs) then True else contains pat cs)"

text \<open>
  The loop over \<open>enumerate(lines)\<close>: the index after the first line that contains the
  marker, \<open>None\<close> when no line does.
\<close>

fun find_start :: "nat \<Rightarrow> string list \<Rightarrow> nat option" where
  "find_start i [] = None"
| "find_start i (line # rest) =
     (if contains ''Completed Orders'' line then Some (i + 1) else find_start (i + 1) rest)"

text \<open>\<open>s.split(',')\<close>: never empty, \<open>''.split(',')\<close> is \<open>['']\<close>.\<close>

fun split_on :: "char \<Rightarrow> string \<Rightarrow> string list" where
  "split_on d [] = [[]]"
| "split_on d (c # cs) =
     (if c = d then [] # split_on d cs
      else (case split_on d cs of w # ws \<Rightarrow> (c # w) # ws | [] \<Rightarrow> [[c]]))"

text \<open>\<open>sep.join(xs)\<close>.\<close>

fun join :: "string \<Rightarrow> string list \<Rightarrow> string" where
  "join sep [] = []"
| "join sep [x] = x"
| "join sep (x # y # xs) = x @ sep @ join sep (y # xs)"

definition header_of_line :: "string \<Rightarrow> string list" where
  "header_of_line line = split_on (CHR '','') (filter (\<lambda>c. c \<noteq> CHR 0x22) line)"

section \<open>Trade normalizer: tables\<close>

text \<open>
  A cell of a table read from CSV: text, a number, a truth value, or missing. A table
  has its column names and its rows; a row gives a cell to some columns, and reads as
  missing at every other column (as the rows of one file do, after \<open>concat\<close>, at the
  columns only another file has).
\<close>

datatype cell = Str string | Num real | Bool bool | NaN

record frame =
  columns :: "string list"
  rows :: "(string \<times> cell) list list"

definition cell_of :: "(string \<times> cell) list \<Rightarrow> string \<Rightarrow> cell" where
  "cell_of row c = (case map_of row c of None \<Rightarrow> NaN | Some v \<Rightarrow> v)"

text \<open>
  What the program takes from pandas and numpy without defining it:
  \<^item> \<open>read_csv data names\<close>: the rows of the CSV text, each with its cells in the order
    of \<open>names\<close> (it is only called with names that are distinct);
  \<^item> \<open>to_datetime now column c\<close>: the timestamp \<open>to_datetime(column, errors='coerce')\<close>
    gives the cell \<open>c\<close> of \<open>column\<close>, in nanoseconds since the epoch, \<open>None\<close> for NaT; the
    parser may look at the whole column (it guesses one format for it) and at the clock,
    whose reading is \<open>now\<close>;
  \<^item> \<open>to_numeric c\<close>: the cell under \<open>to_numeric(..., errors='coerce')\<close>;
  \<^item> \<open>argsort keys\<close>: \<open>keys.argsort(kind='quicksort')\<close>, the default kind of
    \<open>sort_values\<close>.
\<close>

record pandas =
  read_csv :: "string \<Rightarrow> string list \<Rightarrow> error + cell list list"
  to_datetime :: "int \<Rightarrow> cell list \<Rightarrow> cell \<Rightarrow> int option"
  to_numeric :: "cell \<Rightarrow> float"
  argsort :: "int list \<Rightarrow> nat list"

definition empty_frame :: frame where
  "empty_frame = \<lparr>columns = [], rows = []\<rparr>"

text \<open>
  \<open>extract_completed_orders\<close>. \<open>lines[start_index]\<close> raises when the marker is on the last
  line; \<open>read_csv\<close> refuses duplicate names before it reads.
\<close>

definition extract_completed_orders :: "pandas \<Rightarrow> string \<Rightarrow> error + frame" where
  "extract_completed_orders L file =
     and_then (decode file) (\<lambda>text.
       let lines = splitlines text in
       case find_start 0 lines of
         None \<Rightarrow> Inr empty_frame
       | Some start_index \<Rightarrow>
           if length lines \<le> start_index then Inl IndexError
           else
             let header = header_of_line (lines ! start_index);
                 data = join [CHR 0x0A] (drop (start_index + 1) lines)
             in if \<not> distinct header then Inl ValueError
                else and_then (read_csv L data header) (\<lambda>rs.
                  Inr \<lparr>columns = header, rows = map (zip header) rs\<rparr>))"

text \<open>
  \<open>pd.concat(dfs, ignore_index=True)\<close>: the columns in order of first appearance, the
  rows one table after the other; no table at all is an error.
\<close>

fun union_columns :: "string list \<Rightarrow> string list \<Rightarrow> string list" where
  "union_columns acc [] = acc"
| "union_columns acc (c # cs) = union_columns (if c \<in> set acc then acc else acc @ [c]) cs"

definition concat_frames :: "frame list \<Rightarrow> error + frame" where
  "concat_frames dfs =
     (if dfs = [] then Inl ValueError
      else Inr \<lparr>columns = union_columns [] (concat (map columns dfs)),
                rows = concat (map rows dfs)\<rparr>)"

fun extract_all :: "pandas \<Rightarrow> string list \<Rightarrow> error + frame list" where
  "extract_all L [] = Inr []"
| "extract_all L (f # fs) =
     and_then (extract_completed_orders L f) (\<lambda>df.
       and_then (extract_all L fs) (\<lambda>dfs. Inr (df # dfs)))"

text \<open>\<open>df_all[df_all['Status'] == 'Filled']\<close>.\<close>

definition filled :: "frame \<Rightarrow> error + frame" where
  "filled df =
     (if ''Status'' \<in> set (columns df)
      then Inr (df\<lparr>rows := filter (\<lambda>r. cell_of r ''Status'' = Str ''Filled'') (rows df)\<rparr>)
      else Inl (KeyError [''Status'']))"

definition required_columns :: "string list" where
  "required_columns =
     [''Account'', ''Buy/Sell'', ''Symbol'', ''Avg Fill Price'', ''Qty To Fill'',
      ''Update Time (CST)'', ''Commission Fill Rate'', ''Closed Profit/Loss'']"

text \<open>
  The eight selected columns of a row under their new names, cells still as read.
\<close>

record raw_trade =
  account_cell :: cell
  side_cell :: cell
  symbol_cell :: cell
  price_cell :: cell
  quantity_cell :: cell
  time_cell :: cell
  commission_cell :: cell
  pnl_cell :: cell

definition select_row :: "(string \<times> cell) list \<Rightarrow> raw_trade" where
  "select_row r =
     \<lparr>account_cell = cell_of r ''Account'', side_cell = cell_of r ''Buy/Sell'',
      symbol_cell = cell_of r ''Symbol'', price_cell = cell_of r ''Avg Fill Price'',
      quantity_cell = cell_of r ''Qty To Fill'', time_cell = cell_of r ''Update Time (CST)'',
      commission_cell = cell_of r ''Commission Fill Rate'',
      pnl_cell = cell_of r ''Closed Profit/Loss''\<rparr>"

text \<open>The selection raises a \<open>KeyError\<close> that lists the names no column has.\<close>

definition select_columns :: "frame \<Rightarrow> error + raw_trade list" where
  "select_columns df =
     (let missing = filter (\<lambda>c. c \<notin> set (columns df)) required_columns
      in if missing \<noteq> [] then Inl (KeyError missing) else Inr (map select_row (rows df)))"

section \<open>Trade normalizer: coercion, completeness, order\<close>

datatype side = Buy | Sell

record trade =
  account :: cell
  side :: "side option"
  symbol :: cell
  price :: float
  quantity :: float
  timestamp :: "int option"
  commission :: real
  profit_loss :: float

text \<open>\<open>.map({'B': 'Buy', 'S': 'Sell'})\<close>: every other cell becomes missing.\<close>

definition map_side :: "cell \<Rightarrow> side option" where
  "map_side c = (if c = Str ''B'' then Some Buy else if c = Str ''S'' then Some Sell else None)"

definition fillna0 :: "float \<Rightarrow> real" where
  "fillna0 x = (case x of None \<Rightarrow> 0 | Some v \<Rightarrow> v)"

definition coerce :: "pandas \<Rightarrow> int \<Rightarrow> raw_trade list \<Rightarrow> trade list" where
  "coerce L now raws =
     (let times = map time_cell raws in
      map (\<lambda>r.
        \<lparr>account = account_cell r,
         side = map_side (side_cell r),
         symbol = symbol_cell r,
         price = to_numeric L (price_cell r),
         quantity = to_numeric L (quantity_cell r),
         timestamp = to_datetime L now times (time_cell r),
         commission = fillna0 (to_numeric L (commission_cell r)),
         profit_loss = to_numeric L (pnl_cell r)\<rparr>) raws)"

text \<open>\<open>dropna(subset=[timestamp, price, side])\<close>.\<close>

definition complete :: "trade \<Rightarrow> bool" where
  "complete t = (timestamp t \<noteq> None \<and> price t \<noteq> None \<and> side t \<noteq> None)"

definition dropna :: "trade list \<Rightarrow> trade list" where
  "dropna ts = filter complete ts"

text \<open>
  \<open>sort_values\<close> on one column, as pandas does it (\<open>nargsort\<close>): the positions whose key
  is present are ordered by \<open>argsort\<close> of their keys, the positions whose key is missing
  follow, and the rows are taken in that order. Indexing outside an array raises.
\<close>

definition take_idx :: "'a list \<Rightarrow> nat list \<Rightarrow> error + 'a list" where
  "take_idx xs idx =
     (if \<forall>i\<in>set idx. i < length xs then Inr (map (\<lambda>i. xs ! i) idx) else Inl IndexError)"

definition non_nan_idx :: "int option list \<Rightarrow> nat list" where
  "non_nan_idx items = filter (\<lambda>i. items ! i \<noteq> None) [0..<length items]"

definition nan_idx :: "int option list \<Rightarrow> nat list" where
  "nan_idx items = filter (\<lambda>i. items ! i = None) [0..<length items]"

definition non_nans :: "int option list \<Rightarrow> int list" where
  "non_nans items = map (\<lambda>i. the (items ! i)) (non_nan_idx items)"

definition nargsort :: "pandas \<Rightarrow> int option list \<Rightarrow> error + nat list" where
  "nargsort L items =
     and_then (take_idx (non_nan_idx items) (argsort L (non_nans items))) (\<lambda>indexer.
       Inr (indexer @ nan_idx items))"

definition sort_values :: "pandas \<Rightarrow> trade list \<Rightarrow> error + trade list" where
  "sort_values L ts =
     and_then (nargsort L (map timestamp ts)) (\<lambda>indexer. take_idx ts indexer)"

text \<open>
  The stages of \<open>load_and_clean_data\<close>: the selected rows of the merged table (no clock
  is read up to here), their coercion and the completeness filter, and the sort.
\<close>

definition selected :: "pandas \<Rightarrow> string list \<Rightarrow> error + raw_trade list" where
  "selected L files =
     and_then (extract_all L files) (\<lambda>dfs.
     and_then (concat_frames dfs) (\<lambda>df_all.
     and_then (filled df_all) select_columns))"

definition cleaned :: "pandas \<Rightarrow> int \<Rightarrow> string list \<Rightarrow> error + trade list" where
  "cleaned L now files = and_then (selected L files) (\<lambda>raws. Inr (dropna (coerce L now raws)))"

definition load_and_clean_data :: "pandas \<Rightarrow> int \<Rightarrow> string list \<Rightarrow> error + trade list" where
  "load_and_clean_data L now files = and_then (cleaned L now files) (sort_values L)"

text \<open>
  The function is decorated with \<open>@st.cache_data\<close>, so the call of the script goes through
  Streamlit's memo: when a table is stored for the arguments, it is returned and the
  function does not run; otherwise the function runs and, unless it raises, its result is
  stored. The memo is state outside the function: it outlives the run of the script, and
  is empty after a restart of the server or when it has been cleared. Streamlit keys an
  uploaded file by its name, read position and content; the model has the content only,
  and keys the memo by the contents of the files, in order.
\<close>

type_synonym memo = "string list \<rightharpoonup> trade list"

definition cached_load_and_clean_data ::
    "pandas \<Rightarrow> memo \<Rightarrow> int \<Rightarrow> string list \<Rightarrow> (error + trade list) \<times> memo" where
  "cached_load_and_clean_data L m now files =
     (case m files of
        Some out \<Rightarrow> (Inr out, m)
      | None \<Rightarrow>
          (case load_and_clean_data L now files of
             Inl e \<Rightarrow> (Inl e, m)
           | Inr out \<Rightarrow> (Inr out, m(files \<mapsto> out))))"

section \<open>The library: numpy's argsort of kind quicksort\<close>

text \<open>
  \<open>sort_values\<close> is called without \<open>kind\<close>, so pandas passes \<open>kind='quicksort'\<close> to numpy,
  whose \<open>argsort\<close> of that kind is an introsort on an array of positions: median-of-three
  quicksort, insertion sort below 18 elements, heapsort when the depth limit is used up.
  It is modelled here after numpy's \<open>aquicksort\<close>, with \<open>v\<close> the keys, \<open>a\<close> the array of
  positions, and \<open>pl\<close>, \<open>pr\<close>, \<open>i\<close>, \<open>j\<close> the pointers into it as indices.
\<close>

definition swap :: "nat list \<Rightarrow> nat \<Rightarrow> nat \<Rightarrow> nat list" where
  "swap a i j = a[i := a ! j, j := a ! i]"

text \<open>
  The two scans of the partition loop. In numpy they have no bound: the median-of-three
  leaves a key that is not above the pivot at \<open>pl\<close> and puts the pivot at \<open>pr - 1\<close>, and
  there they stop; the model stops there without looking at the key.
\<close>

function scan_up :: "int list \<Rightarrow> nat list \<Rightarrow> int \<Rightarrow> nat \<Rightarrow> nat \<Rightarrow> nat" where
  "scan_up v a vp hi i =
     (if i + 1 < hi \<and> v ! (a ! (i + 1)) < vp then scan_up v a vp hi (i + 1) else i + 1)"
  by pat_completeness auto
termination
  by (relation "measure (\<lambda>(v, a, vp, hi, i). hi - i)") auto

function scan_down :: "int list \<Rightarrow> nat list \<Rightarrow> int \<Rightarrow> nat \<Rightarrow> nat \<Rightarrow> nat" where
  "scan_down v a vp lo j =
     (if lo < j - 1 \<and> vp < v ! (a ! (j - 1)) then scan_down v a vp lo (j - 1) else j - 1)"
  by pat_completeness auto
termination
  by (relation "measure (\<lambda>(v, a, vp, lo, j). j)") auto

declare scan_up.simps [simp del] scan_down.simps [simp del]

lemma scan_up_gt: "i < scan_up v a vp hi i"
proof (induction v a vp hi i rule: scan_up.induct)
  case (1 v a vp hi i)
  then show ?case by (subst scan_up.simps) auto
qed

lemma scan_up_le: "i < hi \<Longrightarrow> scan_up v a vp hi i \<le> hi"
proof (induction v a vp hi i rule: scan_up.induct)
  case (1 v a vp hi i)
  then show ?case by (subst scan_up.simps) auto
qed

lemma scan_down_le: "scan_down v a vp lo j \<le> j"
proof (induction v a vp lo j rule: scan_down.induct)
  case (1 v a vp lo j)
  then show ?case by (subst scan_down.simps) auto
qed

function hoare :: "int list \<Rightarrow> int \<Rightarrow> nat \<Rightarrow> nat \<Rightarrow> nat list \<Rightarrow> nat \<Rightarrow> nat \<Rightarrow> nat list \<times> nat" where
  "hoare v vp lo hi a i j =
     (let i' = scan_up v a vp hi i; j' = scan_down v a vp lo j
      in if j' \<le> i' then (a, i') else hoare v vp lo hi (swap a i' j') i' j')"
  by pat_completeness auto
termination
proof (relation "measure (\<lambda>(v, vp, lo, hi, a, i, j). j - i)")
  show "wf (measure (\<lambda>(v, vp, lo, hi, a, i, j). j - i))" by simp
next
  fix v vp lo hi a i j x xa
  assume "x = scan_up v a vp hi i" "xa = scan_down v a vp lo j" "\<not> xa \<le> x"
  then show "((v, vp, lo, hi, swap a x xa, x, xa), (v, vp, lo, hi, a, i, j))
      \<in> measure (\<lambda>(v, vp, lo, hi, a, i, j). j - i)"
    using scan_up_gt [of i v a vp hi] scan_down_le [of v a vp lo j] by simp
qed

declare hoare.simps [simp del]

definition partition_np :: "int list \<Rightarrow> nat list \<Rightarrow> nat \<Rightarrow> nat \<Rightarrow> nat list \<times> nat" where
  "partition_np v a pl pr =
     (let pm = pl + (pr - pl) div 2;
          a1 = (if v ! (a ! pm) < v ! (a ! pl) then swap a pm pl else a);
          a2 = (if v ! (a1 ! pr) < v ! (a1 ! pm) then swap a1 pr pm else a1);
          a3 = (if v ! (a2 ! pm) < v ! (a2 ! pl) then swap a2 pm pl else a2);
          vp = v ! (a3 ! pm);
          a4 = swap a3 pm (pr - 1);
          h = hoare v vp pl (pr - 1) a4 pl (pr - 1)
      in (swap (fst h) (snd h) (pr - 1), snd h))"

text \<open>Insertion sort of the positions \<open>pl..pr\<close>.\<close>

function insert_down :: "int list \<Rightarrow> nat list \<Rightarrow> nat \<Rightarrow> nat \<Rightarrow> int \<Rightarrow> nat \<Rightarrow> nat list" where
  "insert_down v a pl vi vp j =
     (if pl < j \<and> vp < v ! (a ! (j - 1))
      then insert_down v (a[j := a ! (j - 1)]) pl vi vp (j - 1)
      else a[j := vi])"
  by pat_completeness auto
termination
  by (relation "measure (\<lambda>(v, a, pl, vi, vp, j). j)") auto

function insertion :: "int list \<Rightarrow> nat list \<Rightarrow> nat \<Rightarrow> nat \<Rightarrow> nat \<Rightarrow> nat list" where
  "insertion v a pl pr i =
     (if i \<le> pr
      then insertion v (insert_down v a pl (a ! i) (v ! (a ! i)) i) pl pr (i + 1)
      else a)"
  by pat_completeness auto
termination
  by (relation "measure (\<lambda>(v, a, pl, pr, i). pr + 1 - i)") auto

declare insert_down.simps [simp del] insertion.simps [simp del]

text \<open>
  Heapsort of \<open>n\<close> positions (numpy's \<open>aheapsort\<close>), on the slice \<open>h\<close> with numpy's
  1-based indices: \<open>a[k]\<close> is \<open>h ! (k - 1)\<close>.
\<close>

function sift :: "int list \<Rightarrow> nat list \<Rightarrow> nat \<Rightarrow> nat \<Rightarrow> nat \<Rightarrow> nat \<Rightarrow> nat list" where
  "sift v h n tmp i j =
     (if 0 < j \<and> j \<le> n then
        (let j1 = (if j < n \<and> v ! (h ! (j - 1)) < v ! (h ! j) then j + 1 else j)
         in if v ! tmp < v ! (h ! (j1 - 1))
            then sift v (h[i - 1 := h ! (j1 - 1)]) n tmp j1 (j1 + j1)
            else h[i - 1 := tmp])
      else h[i - 1 := tmp])"
  by pat_completeness auto
termination
  by (relation "measure (\<lambda>(v, h, n, tmp, i, j). n + 1 - j)") auto

declare sift.simps [simp del]

fun heapify :: "int list \<Rightarrow> nat list \<Rightarrow> nat \<Rightarrow> nat \<Rightarrow> nat list" where
  "heapify v h n 0 = h"
| "heapify v h n (Suc l) = heapify v (sift v h n (h ! l) (Suc l) (2 * Suc l)) n l"

function unheap :: "int list \<Rightarrow> nat list \<Rightarrow> nat \<Rightarrow> nat list" where
  "unheap v h n =
     (if 1 < n
      then unheap v (sift v (h[n - 1 := h ! 0]) (n - 1) (h ! (n - 1)) 1 2) (n - 1)
      else h)"
  by pat_completeness auto
termination
  by (relation "measure (\<lambda>(v, h, n). n)") auto

declare unheap.simps [simp del]

definition aheapsort :: "int list \<Rightarrow> nat list \<Rightarrow> nat \<Rightarrow> nat \<Rightarrow> nat list" where
  "aheapsort v a pl n =
     (let h = take n (drop pl a)
      in take pl a @ unheap v (heapify v h n (n div 2)) n @ drop (pl + n) a)"

text \<open>The pivot ends strictly inside the range, so both parts are shorter.\<close>

lemma hoare_bounds:
  "i < hi \<Longrightarrow> j \<le> hi \<Longrightarrow>
   i < snd (hoare v vp lo hi a i j) \<and> snd (hoare v vp lo hi a i j) \<le> hi"
proof (induction v vp lo hi a i j rule: hoare.induct)
  case (1 v vp lo hi a i j)
  let ?si = "scan_up v a vp hi i" and ?sj = "scan_down v a vp lo j"
  have up: "i < ?si" "?si \<le> hi" using scan_up_gt scan_up_le "1.prems" by auto
  have dn: "?sj \<le> j" by (rule scan_down_le)
  show ?case
  proof (cases "?sj \<le> ?si")
    case True
    then show ?thesis using up by (subst (1 2) hoare.simps) (simp add: Let_def)
  next
    case False
    with up dn "1.prems" have "?si < hi" "?sj \<le> hi" by auto
    with "1.IH" [OF refl refl False] have
      "?si < snd (hoare v vp lo hi (swap a ?si ?sj) ?si ?sj) \<and>
       snd (hoare v vp lo hi (swap a ?si ?sj) ?si ?sj) \<le> hi" by simp
    with False up show ?thesis by (subst (1 2) hoare.simps) (simp add: Let_def)
  qed
qed

lemma snd_partition_np:
  "\<exists>vp a'. snd (partition_np v a pl pr) = snd (hoare v vp pl (pr - 1) a' pl (pr - 1))"
  unfolding partition_np_def Let_def snd_conv by blast

lemma partition_np_bounds:
  assumes "pl + 1 < pr"
  shows "pl < snd (partition_np v a pl pr) \<and> snd (partition_np v a pl pr) < pr"
proof -
  from assms have b: "pl < pr - 1" "pr - 1 \<le> pr - 1" by auto
  obtain vp a' where s: "snd (partition_np v a pl pr) = snd (hoare v vp pl (pr - 1) a' pl (pr - 1))"
    using snd_partition_np by blast
  from hoare_bounds [OF b, of v vp pl a'] assms show ?thesis
    unfolding s by linarith
qed

text \<open>
  The main loop. numpy keeps the pending ranges on an explicit stack; the model recurses
  instead: the shorter part first, as numpy goes on with it, then the longer part, as
  numpy pops it. The flag tells whether the depth limit is looked at, which numpy does
  for a range it pops and not for the range it goes on with.
\<close>

function (sequential) qs :: "int list \<Rightarrow> bool \<Rightarrow> nat list \<Rightarrow> nat \<Rightarrow> nat \<Rightarrow> int \<Rightarrow> nat list" where
  "qs v check a pl pr cdepth =
     (if check \<and> cdepth < 0 then aheapsort v a pl (pr + 1 - pl)
      else if 16 < pr - pl then
        (let a1 = fst (partition_np v a pl pr); i = snd (partition_np v a pl pr)
         in if i - pl < pr - i
            then qs v True (qs v False a1 pl (i - 1) (cdepth - 1)) (i + 1) pr (cdepth - 1)
            else qs v True (qs v False a1 (i + 1) pr (cdepth - 1)) pl (i - 1) (cdepth - 1))
      else insertion v a pl pr (pl + 1))"
  by pat_completeness auto
termination
proof (relation "measure (\<lambda>(v, check, a, pl, pr, cdepth). pr - pl)", goal_cases)
  case 1
  then show ?case by simp
next
  case (2 v check a pl pr cdepth x xa)
  then have "pl + 1 < pr" by simp
  from partition_np_bounds [OF this, of v a] 2 show ?case by auto
next
  case (3 v check a pl pr cdepth x xa)
  then have "pl + 1 < pr" by simp
  from partition_np_bounds [OF this, of v a] 3 show ?case by auto
next
  case (4 v check a pl pr cdepth x xa)
  then have "pl + 1 < pr" by simp
  from partition_np_bounds [OF this, of v a] 4 show ?case by auto
next
  case (5 v check a pl pr cdepth x xa)
  then have "pl + 1 < pr" by simp
  from partition_np_bounds [OF this, of v a] 5 show ?case by auto
qed

declare qs.simps [simp del]

fun npy_get_msb :: "nat \<Rightarrow> nat" where
  "npy_get_msb n = (if n < 2 then 0 else Suc (npy_get_msb (n div 2)))"

declare npy_get_msb.simps [simp del]

definition aquicksort :: "int list \<Rightarrow> nat list" where
  "aquicksort v =
     (let num = length v
      in qs v True [0..<num] 0 (num - 1) (2 * int (npy_get_msb num)))"

section \<open>The library: a reference instance\<close>

text \<open>
  The theorems below hold for every library. Concrete runs need one: this instance reads
  unquoted, rectangular CSV whose cells are text, plain decimal numbers or one of
  pandas' markers of a missing value; it parses timestamps of the layout
  \<open>YYYY-MM-DD HH:MM:SS\<close>, and resolves the words \<open>now\<close> and \<open>today\<close>, which pandas reads
  as the current time, to the clock; every other time cell is NaT here. Its \<open>argsort\<close> is
  the quicksort above.
\<close>

definition is_digit :: "char \<Rightarrow> bool" where
  "is_digit c = (48 \<le> (of_char c :: nat) \<and> (of_char c :: nat) \<le> 57)"

fun digits_val :: "nat \<Rightarrow> string \<Rightarrow> nat option" where
  "digits_val acc [] = Some acc"
| "digits_val acc (c # cs) =
     (if is_digit c then digits_val (10 * acc + (of_char c - 48)) cs else None)"

definition nat_of_string :: "string \<Rightarrow> nat option" where
  "nat_of_string s = (if s = [] then None else digits_val 0 s)"

definition parse_decimal :: "string \<Rightarrow> real option" where
  "parse_decimal s =
     (let neg = (s \<noteq> [] \<and> hd s = CHR ''-'');
          body = (if neg then tl s else s);
          whole = takeWhile is_digit body;
          rest = dropWhile is_digit body;
          sg = (if neg then - 1 else 1)
      in case nat_of_string whole of
           None \<Rightarrow> None
         | Some n \<Rightarrow>
             if rest = [] then Some (sg * real n)
             else if hd rest = CHR ''.'' then
               (case digits_val 0 (tl rest) of
                  None \<Rightarrow> None
                | Some f \<Rightarrow> Some (sg * (real n + real f / 10 ^ length (tl rest))))
             else None)"

definition na_values :: "string list" where
  "na_values =
     ['''', ''#N/A'', ''#N/A N/A'', ''#NA'', ''-1.#IND'', ''-1.#QNAN'', ''-NaN'', ''-nan'',
      ''1.#IND'', ''1.#QNAN'', ''<NA>'', ''N/A'', ''NA'', ''NULL'', ''NaN'', ''None'',
      ''n/a'', ''nan'', ''null'']"

definition infer_column :: "string list \<Rightarrow> cell list" where
  "infer_column cs =
     (if \<forall>c\<in>set cs. c \<in> set na_values \<or> parse_decimal c \<noteq> None
      then map (\<lambda>c. if c \<in> set na_values then NaN else Num (the (parse_decimal c))) cs
      else map (\<lambda>c. if c \<in> set na_values then NaN else Str c) cs)"

definition read_csv_rows :: "string list \<Rightarrow> string list \<Rightarrow> error + cell list list" where
  "read_csv_rows lines names =
     (let recs = map (split_on (CHR '','')) lines;
          n = length names
      in if lines = [] then Inl EmptyDataError
         else if \<exists>r\<in>set recs. n < length r then Inl ParserError
         else
           let padded = map (\<lambda>r. r @ replicate (n - length r) []) recs;
               cols = map (\<lambda>j. infer_column (map (\<lambda>r. r ! j) padded)) [0..<n]
           in Inr (map (\<lambda>k. map (\<lambda>col. col ! k) cols) [0..<length padded]))"

definition read_csv_ref :: "string \<Rightarrow> string list \<Rightarrow> error + cell list list" where
  "read_csv_ref data names =
     read_csv_rows (filter (\<lambda>l. l \<noteq> []) (split_on (CHR 0x0A) data)) names"

definition to_numeric_ref :: "cell \<Rightarrow> float" where
  "to_numeric_ref c =
     (case c of Num x \<Rightarrow> Some x | Str s \<Rightarrow> parse_decimal s
      | Bool b \<Rightarrow> Some (if b then 1 else 0) | NaN \<Rightarrow> None)"

definition days_from_civil :: "int \<Rightarrow> int \<Rightarrow> int \<Rightarrow> int" where
  "days_from_civil y m d =
     (let y' = (if m \<le> 2 then y - 1 else y);
          era = y' div 400;
          yoe = y' - era * 400;
          doy = (153 * ((m + 9) mod 12) + 2) div 5 + d - 1;
          doe = yoe * 365 + yoe div 4 - yoe div 100 + doy
      in era * 146097 + doe - 719468)"

definition days_in_month :: "nat \<Rightarrow> nat \<Rightarrow> nat" where
  "days_in_month y m =
     (if m = 2 then (if y mod 4 = 0 \<and> (y mod 100 \<noteq> 0 \<or> y mod 400 = 0) then 29 else 28)
      else if m = 4 \<or> m = 6 \<or> m = 9 \<or> m = 11 then 30 else 31)"

definition parse_iso :: "string \<Rightarrow> int option" where
  "parse_iso s =
     (if length s = 19 \<and> s ! 4 = CHR ''-'' \<and> s ! 7 = CHR ''-'' \<and> s ! 10 = CHR '' '' \<and>
         s ! 13 = CHR '':'' \<and> s ! 16 = CHR '':''
      then
        (case map nat_of_string
                [take 4 s, take 2 (drop 5 s), take 2 (drop 8 s),
                 take 2 (drop 11 s), take 2 (drop 14 s), take 2 (drop 17 s)] of
           [Some y, Some m, Some d, Some hh, Some mm, Some ss] \<Rightarrow>
             if 1 \<le> m \<and> m \<le> 12 \<and> 1 \<le> d \<and> d \<le> days_in_month y m \<and>
                hh < 24 \<and> mm < 60 \<and> ss < 60
             then Some ((((days_from_civil (int y) (int m) (int d) * 24 + int hh) * 60
                          + int mm) * 60 + int ss) * 1000000000)
             else None
         | _ \<Rightarrow> None)
      else None)"

definition to_datetime_ref :: "int \<Rightarrow> cell list \<Rightarrow> cell \<Rightarrow> int option" where
  "to_datetime_ref now column c =
     (case c of
        Str s \<Rightarrow> if s = ''now'' \<or> s = ''today'' then Some now else parse_iso s
      | _ \<Rightarrow> None)"

definition pandas_ref :: pandas where
  "pandas_ref =
     \<lparr>read_csv = read_csv_ref, to_datetime = to_datetime_ref,
      to_numeric = to_numeric_ref, argsort = aquicksort\<rparr>"


section \<open>Notions used in the statements\<close>

text \<open>
  What numpy promises of \<open>argsort\<close>, whatever the kind: the result lists every position
  once and the keys read in that order ascend.
\<close>

definition is_argsort :: "int list \<Rightarrow> nat list \<Rightarrow> bool" where
  "is_argsort ks idx = (sort idx = [0..<length ks] \<and> sorted (map (\<lambda>i. ks ! i) idx))"

text \<open>
  Lines of plain ASCII text: no byte above 127 and none of the line terminators.
\<close>

definition plain_char :: "char \<Rightarrow> bool" where
  "plain_char c = (\<not> digit7 c \<and> c \<noteq> CHR 0x0A \<and> c \<noteq> CHR 0x0B \<and> c \<noteq> CHR 0x0C \<and>
     c \<noteq> CHR 0x0D \<and> c \<noteq> CHR 0x1C \<and> c \<noteq> CHR 0x1D \<and> c \<noteq> CHR 0x1E)"

definition plain_line :: "string \<Rightarrow> bool" where
  "plain_line l = list_all plain_char l"

text \<open>A file written line by line, each line ended by LF.\<close>

definition lines_text :: "string list \<Rightarrow> string" where
  "lines_text ls = concat (map (\<lambda>l. l @ [CHR 0x0A]) ls)"

subsection \<open>Example files\<close>

text \<open>
  \<open>fills_file\<close>: five orders, of which two are complete fills, out of time order; one has
  an unknown side, one an unreadable time, one was cancelled. \<open>one_fill_file\<close> and
  \<open>no_symbol_file\<close>: one fill each, the second under a header without \<open>Symbol\<close>.
  \<open>now_file\<close>: one fill whose time cell is the word \<open>now\<close>. \<open>ties_file\<close>: eighteen fills
  with one and the same timestamp, told apart by their prices 0 to 17.
\<close>

definition marker_line :: string where
  "marker_line = ''Completed Orders''"

definition header9 :: string where
  "header9 = ''Account,Buy/Sell,Symbol,Avg Fill Price,Qty To Fill,Update Time (CST),Commission Fill Rate,Closed Profit/Loss,Status''"

definition header8 :: string where
  "header8 = ''Account,Buy/Sell,Avg Fill Price,Qty To Fill,Update Time (CST),Commission Fill Rate,Closed Profit/Loss,Status''"

definition fills_lines :: "string list" where
  "fills_lines =
    [''A1,B,ESZ4,100,1,2024-01-15 09:30:00,0.5,,Filled'',
     ''A1,S,ESZ4,101,1,2024-01-15 09:29:00,0.5,12.50,Filled'',
     ''A1,X,ESZ4,101,1,2024-01-15 09:28:00,0.5,12.50,Filled'',
     ''A1,B,ESZ4,101,1,bad,0.5,12.50,Filled'',
     ''A1,B,ESZ4,101,1,2024-01-15 09:31:00,0.5,12.50,Cancelled'']"

definition fills_file :: string where
  "fills_file = lines_text (marker_line # header9 # fills_lines)"

definition one_fill_file :: string where
  "one_fill_file = lines_text [marker_line, header9, ''A1,B,ESZ4,100,1,2024-01-15 09:30:00,0.5,7,Filled'']"

definition no_symbol_file :: string where
  "no_symbol_file = lines_text [marker_line, header8, ''A2,S,101,2,2024-01-15 09:29:00,0.5,-3,Filled'']"

definition now_file :: string where
  "now_file = lines_text [marker_line, header9, ''A1,B,ESZ4,100,1,now,0.5,7,Filled'']"

definition ties_lines :: "string list" where
  "ties_lines =
    [''T,B,ES,0,1,2024-01-15 09:30:00,0,0,Filled'',
     ''T,B,ES,1,1,2024-01-15 09:30:00,0,0,Filled'',
     ''T,B,ES,2,1,2024-01-15 09:30:00,0,0,Filled'',
     ''T,B,ES,3,1,2024-01-15 09:30:00,0,0,Filled'',
     ''T,B,ES,4,1,2024-01-15 09:30:00,0,0,Filled'',
     ''T,B,ES,5,1,2024-01-15 09:30:00,0,0,Filled'',
     ''T,B,ES,6,1,2024-01-15 09:30:00,0,0,Filled'',
     ''T,B,ES,7,1,2024-01-15 09:30:00,0,0,Filled'',
     ''T,B,ES,8,1,2024-01-15 09:30:00,0,0,Filled'',
     ''T,B,ES,9,1,2024-01-15 09:30:00,0,0,Filled'',
     ''T,B,ES,10,1,2024-01-15 09:30:00,0,0,Filled'',
     ''T,B,ES,11,1,2024-01-15 09:30:00,0,0,Filled'',
     ''T,B,ES,12,1,2024-01-15 09:30:00,0,0,Filled'',
     ''T,B,ES,13,1,2024-01-15 09:30:00,0,0,Filled'',
     ''T,B,ES,14,1,2024-01-15 09:30:00,0,0,Filled'',
     ''T,B,ES,15,1,2024-01-15 09:30:00,0,0,Filled'',
     ''T,B,ES,16,1,2024-01-15 09:30:00,0,0,Filled'',
     ''T,B,ES,17,1,2024-01-15 09:30:00,0,0,Filled'']"

definition ties_file :: string where
  "ties_file = lines_text (marker_line # header9 # ties_lines)"

definition tie :: "nat \<Rightarrow> trade" where
  "tie k =
     \<lparr>account = Str ''T'', side = Some Buy, symbol = Str ''ES'', price = Some (real k),
      quantity = Some 1, timestamp = Some 1705311000000000000, commission = 0,
      profit_loss = Some 0\<rparr>"

definition now_fill :: "int \<Rightarrow> trade" where
  "now_fill t =
     \<lparr>account = Str ''A1'', side = Some Buy, symbol = Str ''ESZ4'', price = Some 100,
      quantity = Some 1, timestamp = Some t, commission = 1 / 2, profit_loss = Some 7\<rparr>"

definition fill_buy :: trade where
  "fill_buy =
     \<lparr>account = Str ''A1'', side = Some Buy, symbol = Str ''ESZ4'', price = Some 100,
      quantity = Some 1, timestamp = Some 1705311000000000000, commission = 1 / 2,
      profit_loss = None\<rparr>"

definition fill_sell :: trade where
  "fill_sell =
     \<lparr>account = Str ''A1'', side = Some Sell, symbol = Str ''ESZ4'', price = Some 101,
      quantity = Some 1, timestamp = Some 1705310940000000000, commission = 1 / 2,
      profit_loss = Some (25 / 2)\<rparr>"

section \<open>Properties of the metrics engine\<close>

subsection \<open>Columns with missing values\<close>

lemma notna_eq_Nil: "notna s = [] \<longleftrightarrow> (\<forall>c\<in>set s. c = None)"
  by (induction s rule: notna.induct) auto

lemma set_notna: "set (notna s) = {x. Some x \<in> set s}"
  by (induction s rule: notna.induct) auto

lemma length_cumsum_from: "length (cumsum_from acc xs) = length xs"
  by (induction acc xs rule: cumsum_from.induct) simp_all

lemma cumsum_from_nth:
  "i < length xs \<Longrightarrow>
   cumsum_from acc xs ! i =
     (if xs ! i = None then None
      else Some (acc + sum_list (map null_as_zero (take (Suc i) xs))))"
proof (induction acc xs arbitrary: i rule: cumsum_from.induct)
  case (1 acc)
  then show ?case by simp
next
  case (2 acc xs)
  then show ?case by (cases i) simp_all
next
  case (3 acc x xs)
  then show ?case by (cases i) simp_all
qed

subsection \<open>Cumulative profit and loss\<close>

text \<open>
  C3, as stated, at a column with a missing value: the claim gives row 1 of
  \<open>[1, NaN, 2]\<close> the number \<open>1 + 0\<close>; \<open>cumsum\<close> leaves NaN there.
\<close>

theorem cumulative_pnl_null_counterexample:
  "cumulative_pnl [Some 1, None, Some 2] ! 1 \<noteq> Some (prefix_sum [Some 1, None, Some 2] 1)"
  by (simp add: cumulative_pnl_def cumsum_def)

text \<open>
  C3, amended: the cumulative series has one cell per trade; at a row whose profit and
  loss is present it is the prefix sum over rows \<open>0..i\<close> with missing values counted
  as 0, and at a row whose profit and loss is missing it is missing too.
\<close>

theorem cumulative_pnl_prefix_sum:
  "length (cumulative_pnl pnl) = length pnl \<and>
   (\<forall>i < length pnl.
      cumulative_pnl pnl ! i =
        (if pnl ! i = None then None else Some (prefix_sum pnl i)))"
  by (simp add: cumulative_pnl_def cumsum_def length_cumsum_from cumsum_from_nth prefix_sum_def)

theorem cumulative_pnl_prefix_sum_witness:
  "cumulative_pnl [Some 1, None, Some 2] = [Some 1, None, Some 3] \<and>
   cumulative_pnl [Some 1, None, Some 2] ! 2 = Some (prefix_sum [Some 1, None, Some 2] 2)"
  using cumulative_pnl_prefix_sum [of "[Some 1, None, Some 2]"]
  by (simp add: cumulative_pnl_def cumsum_def prefix_sum_def)

subsection \<open>Sharpe ratio\<close>

text \<open>
  C1 at a single trade: the sample deviation of one value is NaN, NaN differs from 0, so
  the guard lets the division run and the statistic is NaN, where the claim has 0.
\<close>

theorem sharpe_single_trade: "sharpe [Some 5] = None"
  by (simp add: sharpe_def series_std_def series_var_def series_mean_def)

subsection \<open>Profit factor\<close>

text \<open>
  C10: with at least one losing trade and no winning trade the profit factor is NaN: the
  mean of the empty selection of winners is NaN and the quotient inherits it.
\<close>

theorem profit_ratio_no_winner:
  "(\<exists>c\<in>set pnl. lt0 c) \<Longrightarrow> (\<forall>c\<in>set pnl. \<not> gt0 c) \<Longrightarrow> profit_ratio pnl = None"
proof -
  assume l: "\<exists>c\<in>set pnl. lt0 c" and w: "\<forall>c\<in>set pnl. \<not> gt0 c"
  from w have "filter gt0 pnl = []" by (simp add: filter_empty_conv)
  then have "series_mean (filter gt0 pnl) = None" by (simp add: series_mean_def)
  then show ?thesis by (simp add: profit_ratio_def)
qed

theorem profit_ratio_no_winner_witness:
  "profit_ratio [Some (- 3), Some 0] = None"
  using profit_ratio_no_winner [of "[Some (- 3), Some 0]"] by simp

subsection \<open>Streaks\<close>

text \<open>
  C9: when no trade is classified \<open>+1\<close> the longest winning streak is NaN, not 0, and
  when every trade is classified \<open>+1\<close> the longest losing streak is NaN: the masked
  selection is empty, so there is no group whose size could be the maximum.
\<close>

theorem max_streak_nan:
  "((\<forall>c\<in>set pnl. \<not> gt0 c) \<longrightarrow> max_win_streak pnl = None) \<and>
   ((\<forall>c\<in>set pnl. gt0 c) \<longrightarrow> max_loss_streak pnl = None)"
proof (intro conjI impI)
  assume "\<forall>c\<in>set pnl. \<not> gt0 c"
  then have "\<forall>r\<in>set (results pnl). \<not> 0 < r" by (auto simp: results_def)
  then have "masked_keys (\<lambda>r. 0 < r) (results pnl) (streaks (results pnl)) = []"
    by (auto simp: masked_keys_def filter_empty_conv dest: set_zip_leftD)
  then show "max_win_streak pnl = None"
    by (simp add: max_win_streak_def win_streaks_def groupby_size_def size_max_def)
next
  assume "\<forall>c\<in>set pnl. gt0 c"
  then have "\<forall>r\<in>set (results pnl). \<not> r < 0" by (auto simp: results_def)
  then have "masked_keys (\<lambda>r. r < 0) (results pnl) (streaks (results pnl)) = []"
    by (auto simp: masked_keys_def filter_empty_conv dest: set_zip_leftD)
  then show "max_loss_streak pnl = None"
    by (simp add: max_loss_streak_def loss_streaks_def groupby_size_def size_max_def)
qed

theorem max_streak_nan_witness:
  "max_win_streak [Some (- 2), Some 0, None] = None \<and> max_loss_streak [Some 4, Some 1] = None"
  using max_streak_nan [of "[Some (- 2), Some 0, None]"] max_streak_nan [of "[Some 4, Some 1]"]
  by simp

subsection \<open>Maximum drawdown\<close>

lemma dd_from_simps [simp]:
  "dd_from m [] = []"
  "dd_from m (None # xs) = None # dd_from m xs"
  "dd_from None (Some x # xs) = Some 0 # dd_from (Some x) xs"
  "dd_from (Some y) (Some x # xs) = Some (x - max y x) # dd_from (Some (max y x)) xs"
  by (simp_all add: dd_from_def Let_def)

lemma dd_from_Some_le: "d \<in> set (notna (dd_from (Some y) xs)) \<Longrightarrow> d \<le> 0"
proof (induction xs arbitrary: y)
  case Nil
  then show ?case by simp
next
  case (Cons c xs)
  then show ?case by (cases c) auto
qed

lemma dd_from_None_le: "d \<in> set (notna (dd_from None xs)) \<Longrightarrow> d \<le> 0"
proof (induction xs)
  case Nil
  then show ?case by simp
next
  case (Cons c xs)
  then show ?case by (cases c) (auto dest: dd_from_Some_le)
qed

lemma dd_from_Some_zero:
  "(\<forall>d\<in>set (notna (dd_from (Some y) xs)). d = 0) \<longleftrightarrow> sorted (y # notna xs)"
proof (induction xs arbitrary: y)
  case Nil
  then show ?case by simp
next
  case (Cons c xs)
  show ?case
  proof (cases c)
    case None
    then show ?thesis using Cons.IH [of y] by simp
  next
    case (Some x)
    show ?thesis
    proof (cases "y \<le> x")
      case True
      then have "max y x = x" by simp
      with Some True show ?thesis using Cons.IH [of x] by fastforce
    next
      case False
      with Some show ?thesis by auto
    qed
  qed
qed

lemma dd_from_None_zero:
  "(\<forall>d\<in>set (notna (dd_from None xs)). d = 0) \<longleftrightarrow> sorted (notna xs)"
proof (induction xs)
  case Nil
  then show ?case by simp
next
  case (Cons c xs)
  then show ?case by (cases c) (simp_all add: dd_from_Some_zero del: sorted_wrt.simps)
qed

lemma dd_from_None_has_zero: "notna xs \<noteq> [] \<Longrightarrow> 0 \<in> set (notna (dd_from None xs))"
proof (induction xs)
  case Nil
  then show ?case by simp
next
  case (Cons c xs)
  then show ?case by (cases c) simp_all
qed

lemma notna_cumsum_from_Nil: "notna (cumsum_from acc xs) = [] \<longleftrightarrow> notna xs = []"
  by (induction acc xs rule: cumsum_from.induct) simp_all

lemma drawdowns_dd_from: "drawdowns pnl = dd_from None (cumulative_pnl pnl)"
  by (simp add: drawdowns_def dd_from_def cummax_def)

text \<open>
  C5, as stated, at the one-trade sequence whose profit and loss is missing: the
  sequence is not empty, every cell of the drawdown column is NaN, and so is its minimum.
\<close>

theorem max_drawdown_all_null_counterexample:
  "[None] \<noteq> [] \<and> \<not> le0 (max_drawdown [None])"
  by (simp add: max_drawdown_def drawdowns_def cumulative_pnl_def cumsum_def cummax_def series_min_def)

text \<open>
  C5, amended: for every trade sequence with at least one non-missing profit and loss,
  the maximum drawdown is a number that is at most 0, and it is 0 exactly when the
  non-missing cells of the cumulative series never decrease.
\<close>

theorem max_drawdown_sign:
  assumes "notna pnl \<noteq> []"
  shows "le0 (max_drawdown pnl) \<and>
         (max_drawdown pnl = Some 0 \<longleftrightarrow> sorted (notna (cumulative_pnl pnl)))"
proof -
  let ?c = "cumulative_pnl pnl"
  let ?D = "set (notna (drawdowns pnl))"
  from assms have c: "notna ?c \<noteq> []"
    by (simp add: cumulative_pnl_def cumsum_def notna_cumsum_from_Nil)
  then have z: "0 \<in> ?D"
    by (simp add: drawdowns_dd_from dd_from_None_has_zero)
  have le: "\<forall>d\<in>?D. d \<le> 0"
    by (auto simp: drawdowns_dd_from dest: dd_from_None_le)
  have fin: "finite ?D" by simp
  from z have ne: "notna (drawdowns pnl) \<noteq> []" by auto
  then have md: "max_drawdown pnl = Some (Min ?D)"
    by (simp add: max_drawdown_def series_min_def)
  have min_le: "Min ?D \<le> 0" by (rule Min_le [OF fin z])
  have "Min ?D = 0 \<longleftrightarrow> (\<forall>d\<in>?D. d = 0)"
  proof
    assume m: "Min ?D = 0"
    show "\<forall>d\<in>?D. d = 0"
    proof
      fix d assume d: "d \<in> ?D"
      then have "Min ?D \<le> d" by (rule Min_le [OF fin])
      with m le d show "d = 0" by force
    qed
  next
    assume a: "\<forall>d\<in>?D. d = 0"
    have "?D \<noteq> {}" using z by auto
    then have "Min ?D \<in> ?D" by (rule Min_in [OF fin])
    with a show "Min ?D = 0" by blast
  qed
  also have "\<dots> \<longleftrightarrow> sorted (notna ?c)"
    by (simp only: drawdowns_dd_from dd_from_None_zero)
  finally show ?thesis using md min_le by simp
qed

theorem max_drawdown_sign_witness:
  "le0 (max_drawdown [Some 10, Some (- 5), None, Some 7]) \<and>
   max_drawdown [Some 10, Some (- 5), None, Some 7] \<noteq> Some 0 \<and>
   max_drawdown [Some 1, None, Some 0, Some 2] = Some 0"
  using max_drawdown_sign [of "[Some 10, Some (- 5), None, Some 7]"]
    max_drawdown_sign [of "[Some 1, None, Some 0, Some 2]"]
  by (simp add: cumulative_pnl_def cumsum_def)

subsection \<open>Streaks are the maximal runs\<close>

lemma expand_simps [simp]:
  "expand [] = []"
  "expand ((v, n) # bs) = replicate n v @ expand bs"
  by (simp_all add: expand_def)

text \<open>Maximal runs: they spell the list, none is empty, neighbours differ.\<close>

lemma runs_expand: "expand (runs xs) = xs"
proof (induction xs)
  case Nil
  then show ?case by simp
next
  case (Cons x xs)
  then show ?case by (cases "runs xs") (auto split: if_splits)
qed

lemma runs_pos: "(v, n) \<in> set (runs xs) \<Longrightarrow> 0 < n"
proof (induction xs arbitrary: v n)
  case Nil
  then show ?case by simp
next
  case (Cons x xs)
  then show ?case by (cases "runs xs") (auto split: if_splits)
qed

lemma runs_hd: "runs (x # xs) \<noteq> [] \<and> fst (hd (runs (x # xs))) = x"
  by (cases "runs xs") (auto split: if_splits)

lemma runs_distinct_adj: "distinct_adj (map fst (runs xs))"
proof (induction xs)
  case Nil
  then show ?case by simp
next
  case (Cons x xs)
  then show ?case by (cases "runs xs") (auto split: if_splits)
qed

lemma runs_values: "(v, n) \<in> set (runs xs) \<Longrightarrow> v \<in> set xs"
proof (induction xs arbitrary: v n)
  case Nil
  then show ?case by simp
next
  case (Cons x xs)
  then show ?case by (cases "runs xs") (auto split: if_splits)
qed

lemma length_expand: "length (expand bs) = sum_list (map snd bs)"
  by (induction bs) auto

text \<open>The streak keys: constant on a run, one more on the next run.\<close>

lemma streaks_fused:
  "bool_cumsum_from c (ne rs (take (length rs) (prev # map Some rs))) = streaks_from prev c rs"
  by (induction rs arbitrary: prev c) (simp_all add: ne_def Let_def)

lemma streaks_streaks_from: "streaks rs = streaks_from None 0 rs"
  using streaks_fused [of 0 rs None] by (simp add: streaks_def shift_def)

lemma length_streaks_from [simp]: "length (streaks_from prev c rs) = length rs"
  by (induction rs arbitrary: prev c) (simp_all add: Let_def)

lemma streaks_from_ge: "k \<in> set (streaks_from prev c rs) \<Longrightarrow> c \<le> k"
proof (induction rs arbitrary: prev c)
  case Nil
  then show ?case by simp
next
  case (Cons r rs)
  then show ?case by (fastforce simp: Let_def split: if_splits)
qed

lemma streaks_from_same:
  "streaks_from (Some v) c (replicate n v @ rs) = replicate n c @ streaks_from (Some v) c rs"
  by (induction n) (simp_all add: Let_def)

lemma streaks_from_block:
  "0 < n \<Longrightarrow> prev \<noteq> Some v \<Longrightarrow>
   streaks_from prev c (replicate n v @ rs) =
     replicate n (Suc c) @ streaks_from (Some v) (Suc c) rs"
  by (cases n) (auto simp: Let_def streaks_from_same)

lemma streaks_from_gt:
  "prev \<noteq> Some r \<Longrightarrow> k \<in> set (streaks_from prev c (r # rs)) \<Longrightarrow> c < k"
  by (auto simp: Let_def dest: streaks_from_ge)

text \<open>Group sizes over keys that come in ascending blocks.\<close>

lemma remdups_replicate_append:
  "0 < n \<Longrightarrow> k \<notin> set ks \<Longrightarrow> remdups (replicate n k @ ks) = k # remdups ks"
proof (induction n)
  case 0
  then show ?case by simp
next
  case (Suc n)
  then show ?case by (cases n) auto
qed

lemma groupby_size_block:
  assumes n: "0 < n" and gt: "\<forall>j\<in>set ks. k < j"
  shows "groupby_size (replicate n k @ ks) = (k, n) # groupby_size ks"
proof -
  from gt have notin: "k \<notin> set ks" by auto
  have r: "remdups (replicate n k @ ks) = k # remdups ks"
    by (rule remdups_replicate_append [OF n notin])
  have "\<forall>j\<in>set (sort (remdups ks)). k \<le> j" using gt by auto
  then have s: "sort (k # remdups ks) = k # sort (remdups ks)"
    by (simp add: insort_is_Cons)
  have f0: "filter (\<lambda>j. j = k) ks = []" using notin by (auto simp: filter_empty_conv)
  have f1: "filter (\<lambda>j. j = k) (replicate n k) = replicate n k" by simp
  have f2: "filter (\<lambda>j. j = k') (replicate n k) = []" if "k' \<in> set ks" for k'
  proof -
    from that notin have "k \<noteq> k'" by blast
    then show ?thesis by (induction n) simp_all
  qed
  have "map (\<lambda>k'. (k', length (filter (\<lambda>j. j = k') (replicate n k @ ks)))) (sort (remdups ks))
      = map (\<lambda>k'. (k', length (filter (\<lambda>j. j = k') ks))) (sort (remdups ks))"
    by (rule map_cong) (use f2 in auto)
  then show ?thesis
    unfolding groupby_size_def r s using f0 by simp
qed

lemma masked_keys_append:
  "length rs = length ks \<Longrightarrow>
   masked_keys keep (rs @ rs') (ks @ ks') = masked_keys keep rs ks @ masked_keys keep rs' ks'"
  by (simp add: masked_keys_def)

lemma masked_keys_replicate:
  "masked_keys keep (replicate n v) (replicate n k) = (if keep v then replicate n k else [])"
  by (induction n) (simp_all add: masked_keys_def)

lemma masked_keys_subset: "set (masked_keys keep rs ks) \<subseteq> set ks"
  by (auto simp: masked_keys_def dest: set_zip_rightD)

lemma expand_Cons_hd:
  "bs \<noteq> [] \<Longrightarrow> \<forall>(v, n)\<in>set bs. 0 < n \<Longrightarrow> \<exists>rs. expand bs = fst (hd bs) # rs"
  by (cases bs) (auto simp: neq_Nil_conv gr0_conv_Suc)

lemma groupby_blocks:
  assumes "\<forall>(v, n)\<in>set bs. 0 < n" and "distinct_adj (map fst bs)"
    and "bs \<noteq> [] \<longrightarrow> prev \<noteq> Some (fst (hd bs))"
  shows "map snd (groupby_size (masked_keys keep (expand bs) (streaks_from prev c (expand bs))))
         = map snd (filter (\<lambda>(v, n). keep v) bs)"
  using assms
proof (induction bs arbitrary: prev c)
  case Nil
  then show ?case by (simp add: masked_keys_def groupby_size_def)
next
  case (Cons b bs)
  obtain v n where b: "b = (v, n)" by (cases b)
  from Cons.prems b have n: "0 < n" and pv: "prev \<noteq> Some v" by auto
  from Cons.prems b have pos: "\<forall>(v, n)\<in>set bs. 0 < n" and adj: "distinct_adj (map fst bs)"
    by (auto simp: distinct_adj_Cons)
  from Cons.prems b have nxt: "bs \<noteq> [] \<longrightarrow> Some v \<noteq> Some (fst (hd bs))"
    by (cases bs) (auto simp: distinct_adj_Cons)
  let ?rest = "masked_keys keep (expand bs) (streaks_from (Some v) (Suc c) (expand bs))"
  have split: "masked_keys keep (expand (b # bs)) (streaks_from prev c (expand (b # bs)))
      = (if keep v then replicate n (Suc c) else []) @ ?rest"
    by (simp add: b streaks_from_block [OF n pv] masked_keys_append masked_keys_replicate)
  have IH: "map snd (groupby_size ?rest) = map snd (filter (\<lambda>(v, n). keep v) bs)"
    by (rule Cons.IH [OF pos adj nxt])
  have gt: "\<forall>j\<in>set ?rest. Suc c < j"
  proof (cases bs)
    case Nil
    then show ?thesis by (simp add: masked_keys_def)
  next
    case (Cons b' bs')
    with pos obtain rs where e: "expand bs = fst (hd bs) # rs"
      using expand_Cons_hd [of bs] by auto
    from nxt Cons have "Some v \<noteq> Some (fst (hd bs))" by simp
    then have "\<forall>j\<in>set (streaks_from (Some v) (Suc c) (expand bs)). Suc c < j"
      unfolding e using streaks_from_gt [of "Some v" "fst (hd bs)" _ "Suc c" rs] by blast
    then show ?thesis using masked_keys_subset [of keep "expand bs"] by blast
  qed
  show ?case
  proof (cases "keep v")
    case True
    with split have "masked_keys keep (expand (b # bs)) (streaks_from prev c (expand (b # bs)))
        = replicate n (Suc c) @ ?rest" by simp
    then show ?thesis using groupby_size_block [OF n gt] IH True b by simp
  next
    case False
    with split IH b show ?thesis by simp
  qed
qed

lemma streak_sizes_runs:
  "map snd (groupby_size (masked_keys keep rs (streaks rs)))
   = map snd (filter (\<lambda>(v, n). keep v) (runs rs))"
proof -
  have "map snd (groupby_size (masked_keys keep (expand (runs rs))
          (streaks_from None 0 (expand (runs rs)))))
        = map snd (filter (\<lambda>(v, n). keep v) (runs rs))"
    by (rule groupby_blocks) (auto simp: runs_distinct_adj dest: runs_pos)
  then show ?thesis by (simp add: runs_expand streaks_streaks_from)
qed

lemma results_values: "r \<in> set (results pnl) \<Longrightarrow> r = 1 \<or> r = - 1"
  by (auto simp: results_def)

lemma win_streaks_runs: "map snd (win_streaks pnl) = run_lengths 1 (results pnl)"
proof -
  have "filter (\<lambda>(v, n). 0 < v) (runs (results pnl)) = filter (\<lambda>(v, n). v = 1) (runs (results pnl))"
    by (rule filter_cong) (auto dest!: runs_values results_values)
  then show ?thesis
    by (simp add: win_streaks_def run_lengths_def streak_sizes_runs Let_def)
qed

lemma loss_streaks_runs: "map snd (loss_streaks pnl) = run_lengths (- 1) (results pnl)"
proof -
  have "filter (\<lambda>(v, n). v < 0) (runs (results pnl)) = filter (\<lambda>(v, n). v = - 1) (runs (results pnl))"
    by (rule filter_cong) (auto dest!: runs_values results_values)
  then show ?thesis
    by (simp add: loss_streaks_def run_lengths_def streak_sizes_runs Let_def)
qed

lemma run_lengths_total:
  assumes "\<forall>r\<in>set rs. r = 1 \<or> r = - 1"
  shows "sum_list (run_lengths 1 rs) + sum_list (run_lengths (- 1) rs) = length rs"
proof -
  have v: "\<forall>(v, n)\<in>set (runs rs). v = 1 \<or> v = - 1"
    using assms by (auto dest: runs_values)
  have "\<forall>(v, n)\<in>set bs. v = 1 \<or> v = - 1 \<Longrightarrow>
        sum_list (map snd (filter (\<lambda>(v, n). v = 1) bs))
        + sum_list (map snd (filter (\<lambda>(v, n). v = - 1) bs)) = sum_list (map snd bs)"
    for bs :: "(int \<times> nat) list"
    by (induction bs) auto
  from this [OF v] have "sum_list (run_lengths 1 rs) + sum_list (run_lengths (- 1) rs)
      = length (expand (runs rs))"
    by (simp add: run_lengths_def length_expand)
  then show ?thesis by (simp add: runs_expand)
qed

lemma results_classify: "results pnl = map classify pnl"
proof -
  have "(if gt0 x then 1 else - 1) = classify x" for x
    by (cases x) simp_all
  then show ?thesis by (simp add: results_def)
qed

text \<open>
  C6: the program classifies each trade as the specification says, \<open>+1\<close> if its profit
  and loss is positive and \<open>-1\<close> otherwise (zero and missing included). The maximal runs
  of equal classifications spell the whole sequence of classifications, neighbouring runs
  differ in sign and no run is empty; the group sizes the program computes for the
  winning (losing) rows are the lengths of the \<open>+1\<close> (\<open>-1\<close>) runs, in order; all sizes
  together sum to the number of trades; and the two maxima are the longest \<open>+1\<close> run and
  the longest \<open>-1\<close> run.
\<close>

theorem streaks_partition:
  "results pnl = map classify pnl \<and>
   expand (runs (map classify pnl)) = map classify pnl \<and>
   distinct_adj (map fst (runs (map classify pnl))) \<and>
   0 \<notin> set (map snd (runs (map classify pnl))) \<and>
   map snd (win_streaks pnl) = run_lengths 1 (map classify pnl) \<and>
   map snd (loss_streaks pnl) = run_lengths (- 1) (map classify pnl) \<and>
   sum_list (map snd (win_streaks pnl)) + sum_list (map snd (loss_streaks pnl)) = length pnl \<and>
   max_win_streak pnl = longest (run_lengths 1 (map classify pnl)) \<and>
   max_loss_streak pnl = longest (run_lengths (- 1) (map classify pnl))"
proof -
  let ?cs = "map classify pnl"
  have rc: "results pnl = ?cs" by (rule results_classify)
  have total: "sum_list (run_lengths 1 ?cs) + sum_list (run_lengths (- 1) ?cs) = length pnl"
    using run_lengths_total [of "results pnl"] results_values [of _ pnl]
    by (simp add: rc)
  have ws: "map snd (win_streaks pnl) = run_lengths 1 ?cs"
    using win_streaks_runs [of pnl] by (simp only: rc)
  have ls: "map snd (loss_streaks pnl) = run_lengths (- 1) ?cs"
    using loss_streaks_runs [of pnl] by (simp only: rc)
  have w: "max_win_streak pnl = longest (map snd (win_streaks pnl))"
    by (simp add: max_win_streak_def size_max_def longest_def)
  have l: "max_loss_streak pnl = longest (map snd (loss_streaks pnl))"
    by (simp add: max_loss_streak_def size_max_def longest_def)
  have p: "0 \<notin> set (map snd (runs ?cs))"
    using runs_pos [of _ 0 ?cs] by auto
  show ?thesis
    using rc total w l p by (simp add: runs_expand runs_distinct_adj ws ls)
qed

text \<open>The specification's example, \<open>[10, -5, -3, 7, 7, -1]\<close>.\<close>

lemma streaks_example:
  "max_win_streak [Some 10, Some (- 5), Some (- 3), Some 7, Some 7, Some (- 1)] = Some 2 \<and>
   max_loss_streak [Some 10, Some (- 5), Some (- 3), Some 7, Some 7, Some (- 1)] = Some 2 \<and>
   cumulative_pnl [Some 10, Some (- 5), Some (- 3), Some 7, Some 7, Some (- 1)] =
     [Some 10, Some 5, Some 2, Some 9, Some 16, Some 15] \<and>
   max_drawdown [Some 10, Some (- 5), Some (- 3), Some 7, Some 7, Some (- 1)] = Some (- 8)"
  by (simp add: max_win_streak_def max_loss_streak_def win_streaks_def loss_streaks_def
      results_def streaks_def shift_def ne_def masked_keys_def groupby_size_def size_max_def
      cumulative_pnl_def cumsum_def max_drawdown_def drawdowns_def cummax_def series_min_def)

subsection \<open>The divisions are safe, and what the Sharpe guard covers\<close>

text \<open>
  With at least two values the statistic is the quotient the specification gives when
  the deviation is not 0, and 0 when all values are equal; with fewer than two values
  it is NaN.
\<close>

lemma sharpe_few: "length (notna pnl) \<le> 1 \<Longrightarrow> sharpe pnl = None"
  by (simp add: sharpe_def series_std_def series_var_def Let_def)

lemma sharpe_formula:
  assumes "series_std pnl = Some sd" and "sd \<noteq> 0"
  shows "\<exists>m. series_mean pnl = Some m \<and> sharpe pnl = Some (m / sd * sqrt 252)"
proof -
  from assms(1) have "1 < length (notna pnl)"
    by (auto simp: series_std_def series_var_def Let_def split: if_splits)
  then have "notna pnl \<noteq> []" by auto
  then obtain m where m: "series_mean pnl = Some m" by (simp add: series_mean_def Let_def)
  with assms show ?thesis by (simp add: sharpe_def)
qed

lemma sharpe_divisor:
  "sharpe pnl =
     (case series_std pnl of
        None \<Rightarrow> None
      | Some sd \<Rightarrow> if sd = 0 then Some 0 else map_option (\<lambda>m. m / sd * sqrt 252) (series_mean pnl))"
proof (cases "series_std pnl")
  case None
  then show ?thesis by (simp add: sharpe_def)
next
  case (Some sd)
  show ?thesis
  proof (cases "sd = 0")
    case True
    with Some show ?thesis by (simp add: sharpe_def)
  next
    case False
    from sharpe_formula [OF Some False] Some False show ?thesis by auto
  qed
qed

lemma sum_list_replicate_real: "sum_list (replicate n (c::real)) = real n * c"
  by (induction n) (simp_all add: algebra_simps)

lemma sharpe_identical:
  assumes n: "2 \<le> length (notna pnl)" and same: "\<forall>x\<in>set (notna pnl). x = c"
  shows "sharpe pnl = Some 0"
proof -
  let ?vs = "notna pnl"
  from same have vs: "?vs = replicate (length ?vs) c"
    by (simp add: replicate_length_same)
  from n have pos: "real (length ?vs) \<noteq> 0" by auto
  have avg: "sum_list ?vs / real (length ?vs) = c"
    using pos by (subst vs) (simp add: sum_list_replicate_real)
  have "map (\<lambda>v. (c - v)\<^sup>2) ?vs = map (\<lambda>v. 0) ?vs"
    by (rule map_cong) (use same in auto)
  then have "sum_list (map (\<lambda>v. (c - v)\<^sup>2) ?vs) = sum_list (map (\<lambda>v. 0) ?vs)"
    by (simp only:)
  then have "sum_list (map (\<lambda>v. (c - v)\<^sup>2) ?vs) = 0" by simp
  with n avg have "series_var pnl = Some 0" by (simp add: series_var_def Let_def)
  then have "series_std pnl = Some 0" by (simp add: series_std_def)
  then show ?thesis by (simp add: sharpe_def)
qed

lemma sum_list_neg: "vs \<noteq> [] \<Longrightarrow> \<forall>v\<in>set vs. v < (0::real) \<Longrightarrow> sum_list vs < 0"
proof (induction vs)
  case Nil
  then show ?case by simp
next
  case (Cons v vs)
  then show ?case by (cases vs) (auto intro: add_neg_neg)
qed

lemma notna_filter_lt0: "\<forall>v\<in>set (notna (filter lt0 s)). v < 0"
  by (induction s rule: notna.induct) auto

lemma notna_filter_lt0_Nil: "notna (filter lt0 s) = [] \<longleftrightarrow> filter lt0 s = []"
  by (induction s rule: notna.induct) auto

lemma profit_ratio_divisor:
  assumes "filter lt0 pnl \<noteq> []"
  shows "\<exists>m. series_mean (filter lt0 pnl) = Some m \<and> m < 0"
proof -
  let ?vs = "notna (filter lt0 pnl)"
  from assms have ne: "?vs \<noteq> []" by (simp add: notna_filter_lt0_Nil)
  then have "sum_list ?vs < 0" by (rule sum_list_neg) (rule notna_filter_lt0)
  moreover from ne have "0 < real (length ?vs)" by simp
  ultimately have "sum_list ?vs / real (length ?vs) < 0" by (simp add: divide_neg_pos)
  with ne show ?thesis by (simp add: series_mean_def Let_def)
qed

section \<open>Properties of the trade normalizer\<close>

subsection \<open>Files given line by line\<close>

lemma of_char_ascii: "\<not> digit7 c \<Longrightarrow> (of_char c :: nat) < 128"
  by (cases c) (simp add: of_char_def)

lemma utf8_ok_ascii: "\<forall>c\<in>set s. \<not> digit7 c \<Longrightarrow> utf8_ok (map of_char s)"
  by (induction s) (simp_all add: of_char_ascii)

lemma linebreak_plain:
  assumes "plain_char c"
  shows "linebreak (c # cs) = 0"
proof -
  from assms have "\<not> digit7 c" by (simp add: plain_char_def)
  then have "c \<noteq> CHR 0xC2" "c \<noteq> CHR 0xE2" by auto
  with assms show ?thesis by (simp add: plain_char_def)
qed

lemma linebreak_LF: "linebreak (CHR 0x0A # cs) = 1"
  by simp

declare linebreak.simps [simp del]

lemma splitlines_from_plain:
  "list_all plain_char l \<Longrightarrow>
   splitlines_from cur (l @ CHR 0x0A # rest) = (rev cur @ l) # splitlines_from [] rest"
proof (induction l arbitrary: cur)
  case Nil
  then show ?case by (subst splitlines_from.simps) (simp add: linebreak_LF)
next
  case (Cons c l)
  then show ?case by (subst splitlines_from.simps) (simp add: linebreak_plain)
qed

lemma splitlines_lines_text:
  "list_all plain_line ls \<Longrightarrow> splitlines (lines_text ls) = ls"
proof -
  have "list_all plain_line ls \<Longrightarrow> splitlines_from [] (lines_text ls) = ls"
  proof (induction ls)
    case Nil
    then show ?case by (subst splitlines_from.simps) (simp add: lines_text_def)
  next
    case (Cons l ls)
    then show ?case
      using splitlines_from_plain [of l "[]" "lines_text ls"]
      by (simp add: lines_text_def plain_line_def)
  qed
  then show "list_all plain_line ls \<Longrightarrow> splitlines (lines_text ls) = ls"
    by (simp add: splitlines_def)
qed

lemma plain_char_ascii: "plain_char c \<Longrightarrow> \<not> digit7 c"
  by (simp add: plain_char_def)

lemma decode_lines_text:
  "list_all plain_line ls \<Longrightarrow> decode (lines_text ls) = Inr (lines_text ls)"
proof -
  assume a: "list_all plain_line ls"
  have "\<forall>c\<in>set (lines_text ls). \<not> digit7 c"
    using a by (auto simp: lines_text_def plain_line_def list_all_iff plain_char_ascii)
  then show ?thesis by (simp add: decode_def utf8_ok_ascii)
qed

lemma split_on_no_sep: "d \<notin> set l \<Longrightarrow> split_on d l = [l]"
  by (induction l) auto

lemma split_on_append_sep: "d \<notin> set l \<Longrightarrow> split_on d (l @ d # s) = l # split_on d s"
  by (induction l) auto

lemma split_on_join:
  "ls \<noteq> [] \<Longrightarrow> \<forall>l\<in>set ls. d \<notin> set l \<Longrightarrow> split_on d (join [d] ls) = ls"
proof (induction ls)
  case Nil
  then show ?case by simp
next
  case (Cons x xs)
  show ?case
  proof (cases xs)
    case Nil
    with Cons.prems show ?thesis by (simp add: split_on_no_sep)
  next
    case (Cons y ys)
    with Cons.prems Cons.IH have "split_on d (join [d] xs) = xs" by simp
    with Cons Cons.prems show ?thesis by (simp add: split_on_append_sep)
  qed
qed

lemma plain_line_no_LF: "plain_line l \<Longrightarrow> CHR 0x0A \<notin> set l"
  by (auto simp: plain_line_def list_all_iff plain_char_def)

text \<open>An export file given by its lines: marker line, header line, data lines.\<close>

lemma extract_lines_text:
  assumes plain: "list_all plain_line (m # h # rs)"
    and marker: "contains ''Completed Orders'' m"
    and names: "distinct (header_of_line h)"
  shows "extract_completed_orders L (lines_text (m # h # rs)) =
         and_then (read_csv L (join [CHR 0x0A] rs) (header_of_line h)) (\<lambda>cells.
           Inr \<lparr>columns = header_of_line h, rows = map (zip (header_of_line h)) cells\<rparr>)"
  using marker names
  by (simp add: extract_completed_orders_def decode_lines_text [OF plain]
      splitlines_lines_text [OF plain] Let_def)

lemma read_csv_ref_join:
  assumes "list_all plain_line rs" and "\<forall>l\<in>set rs. l \<noteq> []"
  shows "read_csv_ref (join [CHR 0x0A] rs) names = read_csv_rows rs names"
proof (cases "rs = []")
  case True
  then show ?thesis by (simp add: read_csv_ref_def)
next
  case False
  have "\<forall>l\<in>set rs. CHR 0x0A \<notin> set l"
    using assms(1) by (auto simp: list_all_iff dest: plain_line_no_LF)
  from split_on_join [OF False this] have "split_on (CHR 0x0A) (join [CHR 0x0A] rs) = rs" .
  moreover have "filter (\<lambda>l. l \<noteq> []) rs = rs" using assms(2) by (simp add: filter_id_conv)
  ultimately show ?thesis by (simp add: read_csv_ref_def)
qed

subsection \<open>Results and errors\<close>

lemma and_then_Inr_iff:
  "and_then m f = Inr y \<longleftrightarrow> (\<exists>x. m = Inr x \<and> f x = Inr y)"
  by (cases m) simp_all

lemma and_then_Inl: "m = Inl e \<Longrightarrow> and_then m f = Inl e"
  by simp

lemma take_idx_Inr: "take_idx xs idx = Inr ys \<Longrightarrow> set ys \<subseteq> set xs"
  by (auto simp: take_idx_def split: if_splits)

subsection \<open>Completeness of the retained rows\<close>

lemma sort_values_subset: "sort_values L ts = Inr out \<Longrightarrow> set out \<subseteq> set ts"
  by (auto simp: sort_values_def and_then_Inr_iff dest: take_idx_Inr)

lemma cleaned_complete: "cleaned L now files = Inr pre \<Longrightarrow> \<forall>t\<in>set pre. complete t"
  by (auto simp: cleaned_def and_then_Inr_iff dropna_def)

text \<open>
  C4: whenever the normalization returns, every record of its result has a timestamp, a
  price and a side, the side being \<open>Buy\<close> or \<open>Sell\<close>; and the result is drawn from the
  coerced rows that are complete, so a row whose timestamp, price or side did not parse
  or map is not in it. This holds for every library and every clock reading.
\<close>

theorem normalized_complete:
  assumes "load_and_clean_data L now files = Inr out"
  shows "(\<forall>t\<in>set out. timestamp t \<noteq> None \<and> price t \<noteq> None \<and>
            (side t = Some Buy \<or> side t = Some Sell)) \<and>
         (\<exists>raws. selected L files = Inr raws \<and>
            set out \<subseteq> {t \<in> set (coerce L now raws). complete t})"
proof -
  from assms obtain pre where pre: "cleaned L now files = Inr pre"
    and out: "sort_values L pre = Inr out"
    by (auto simp: load_and_clean_data_def and_then_Inr_iff)
  from pre obtain raws where raws: "selected L files = Inr raws"
    and pre_eq: "pre = dropna (coerce L now raws)"
    by (auto simp: cleaned_def and_then_Inr_iff)
  from out have sub: "set out \<subseteq> set pre" by (rule sort_values_subset)
  have side_cases: "side t \<noteq> None \<Longrightarrow> side t = Some Buy \<or> side t = Some Sell" for t :: trade
    by (cases "side t") (auto intro: side.exhaust)
  have "\<forall>t\<in>set out. complete t" using sub cleaned_complete [OF pre] by blast
  then have "\<forall>t\<in>set out. timestamp t \<noteq> None \<and> price t \<noteq> None \<and>
            (side t = Some Buy \<or> side t = Some Sell)"
    using side_cases by (auto simp: complete_def)
  moreover have "set out \<subseteq> {t \<in> set (coerce L now raws). complete t}"
    using sub pre_eq by (auto simp: dropna_def)
  ultimately show ?thesis using raws by blast
qed

subsection \<open>Order of the retained rows\<close>

lemma is_argsort_mset:
  assumes "is_argsort ks idx"
  shows "mset idx = mset [0..<length ks]"
proof -
  from assms have "sort idx = [0..<length ks]" by (simp add: is_argsort_def)
  then have "mset (sort idx) = mset [0..<length ks]" by (simp only:)
  then show ?thesis by (simp only: mset_sort)
qed

lemma is_argsort_set:
  assumes "is_argsort ks idx"
  shows "set idx = {0..<length ks}"
proof -
  have "set_mset (mset idx) = set_mset (mset [0..<length ks])"
    by (simp only: is_argsort_mset [OF assms])
  then show ?thesis by simp
qed

lemma complete_non_nan_idx:
  assumes "\<forall>x\<in>set items. x \<noteq> None"
  shows "non_nan_idx items = [0..<length items]"
proof -
  have "\<forall>i\<in>set [0..<length items]. items ! i \<noteq> None" using assms by simp
  then show ?thesis unfolding non_nan_idx_def by (simp only: filter_True)
qed

lemma complete_nan_idx:
  assumes "\<forall>x\<in>set items. x \<noteq> None"
  shows "nan_idx items = []"
proof -
  have "\<forall>i\<in>set [0..<length items]. \<not> items ! i = None" using assms by simp
  then show ?thesis unfolding nan_idx_def by (simp only: filter_False)
qed

lemma complete_non_nans:
  assumes "\<forall>x\<in>set items. x \<noteq> None"
  shows "map Some (non_nans items) = items"
proof (rule nth_equalityI)
  show "length (map Some (non_nans items)) = length items"
    by (simp add: non_nans_def complete_non_nan_idx [OF assms])
next
  fix i assume "i < length (map Some (non_nans items))"
  then have i: "i < length items"
    by (simp add: non_nans_def complete_non_nan_idx [OF assms])
  then have "items ! i \<noteq> None" using assms by simp
  with i show "map Some (non_nans items) ! i = items ! i"
    by (simp add: non_nans_def complete_non_nan_idx [OF assms])
qed

lemma take_idx_upt:
  assumes "set idx \<subseteq> {0..<n}"
  shows "take_idx [0..<n] idx = Inr idx"
proof -
  have "\<forall>i\<in>set idx. i < n" using assms by auto
  moreover from this have "map (\<lambda>i. [0..<n] ! i) idx = idx" by (simp add: map_idI)
  ultimately show ?thesis by (simp add: take_idx_def)
qed

text \<open>
  C2, amended: the canonical sequence is a rearrangement of the complete rows in which
  the timestamps ascend, \<open>timestamp[i] \<le> timestamp[i+1]\<close> for all neighbours, provided
  \<open>argsort\<close> did on the timestamp column what numpy promises of every kind of sort. The
  order of records with equal timestamps is whatever \<open>kind='quicksort'\<close> makes it; nothing
  is said about it.
\<close>

theorem normalized_sorted:
  assumes pre: "cleaned L now files = Inr pre"
    and lib: "is_argsort (non_nans (map timestamp pre)) (argsort L (non_nans (map timestamp pre)))"
  shows "\<exists>out ks. load_and_clean_data L now files = Inr out \<and>
           map timestamp out = map Some ks \<and> sorted ks \<and> mset out = mset pre"
proof -
  let ?items = "map timestamp pre"
  let ?ks = "non_nans ?items"
  let ?idx = "argsort L ?ks"
  have all: "\<forall>x\<in>set ?items. x \<noteq> None"
    using cleaned_complete [OF pre] by (auto simp: complete_def)
  have ks: "map Some ?ks = ?items" by (rule complete_non_nans [OF all])
  then have len: "length ?ks = length pre" by (metis length_map)
  have set_idx: "set ?idx = {0..<length pre}" using is_argsort_set [OF lib] len by simp
  have "nargsort L ?items = Inr ?idx"
    using set_idx
    by (simp add: nargsort_def complete_non_nan_idx [OF all] complete_nan_idx [OF all] take_idx_upt)
  then have sv: "sort_values L pre = Inr (map (\<lambda>i. pre ! i) ?idx)"
    using set_idx by (simp add: sort_values_def take_idx_def)
  let ?out = "map (\<lambda>i. pre ! i) ?idx"
  have load: "load_and_clean_data L now files = Inr ?out"
    by (simp add: load_and_clean_data_def pre sv)
  have nth_ts: "timestamp (pre ! i) = Some (?ks ! i)" if "i < length pre" for i
  proof -
    from that have "?items ! i = map Some ?ks ! i" by (simp only: ks)
    with that len show ?thesis by simp
  qed
  have "map timestamp ?out = map Some (map (\<lambda>i. ?ks ! i) ?idx)"
    using set_idx nth_ts by (auto simp: subset_iff)
  moreover have "sorted (map (\<lambda>i. ?ks ! i) ?idx)" using lib by (simp add: is_argsort_def)
  moreover have "mset ?out = mset pre"
  proof -
    have "mset ?out = image_mset (\<lambda>i. pre ! i) (mset ?idx)" by simp
    also have "\<dots> = image_mset (\<lambda>i. pre ! i) (mset [0..<length pre])"
      using is_argsort_mset [OF lib] len by simp
    also have "\<dots> = mset (map (\<lambda>i. pre ! i) [0..<length pre])" by simp
    also have "\<dots> = mset pre" by (simp add: map_nth)
    finally show ?thesis .
  qed
  ultimately show ?thesis using load by blast
qed

subsection \<open>Missing columns\<close>

lemma set_union_columns: "set (union_columns acc cs) = set acc \<union> set cs"
  by (induction cs arbitrary: acc) auto

lemma extract_all_Inr:
  "extract_all L files = Inr dfs \<Longrightarrow>
   \<forall>d\<in>set dfs. \<exists>f\<in>set files. extract_completed_orders L f = Inr d"
proof (induction files arbitrary: dfs)
  case Nil
  then show ?case by simp
next
  case (Cons f fs)
  then show ?case by (fastforce simp: and_then_Inr_iff)
qed

lemma concat_frames_columns:
  assumes "concat_frames dfs = Inr df"
  shows "set (columns df) = (\<Union>d\<in>set dfs. set (columns d))"
  using assms by (auto simp: concat_frames_def set_union_columns split: if_splits)

lemma filled_columns: "filled df = Inr df' \<Longrightarrow> columns df' = columns df"
  by (auto simp: filled_def split: if_splits)

lemma select_columns_Inr:
  "select_columns df = Inr raws \<Longrightarrow> set required_columns \<subseteq> set (columns df)"
  by (auto simp: select_columns_def Let_def filter_empty_conv split: if_splits)

text \<open>
  C7, amended: if one of the eight required columns is in the extracted header of none of
  the input files, the whole run fails. (Each file that has the marker contributes its
  header; \<open>concat\<close> takes the union of the headers, so a column that some file has is
  present for all.)
\<close>

theorem missing_everywhere_fails:
  assumes c: "c \<in> set required_columns"
    and nowhere: "\<forall>f\<in>set files. \<forall>df. extract_completed_orders L f = Inr df \<longrightarrow> c \<notin> set (columns df)"
  shows "\<exists>e. load_and_clean_data L now files = Inl e"
proof -
  have "selected L files \<noteq> Inr raws" for raws
  proof
    assume "selected L files = Inr raws"
    then obtain dfs df_all df' where dfs: "extract_all L files = Inr dfs"
      and cat: "concat_frames dfs = Inr df_all"
      and fil: "filled df_all = Inr df'"
      and sel: "select_columns df' = Inr raws"
      by (auto simp: selected_def and_then_Inr_iff)
    from select_columns_Inr [OF sel] c filled_columns [OF fil]
    have "c \<in> set (columns df_all)" by auto
    with concat_frames_columns [OF cat] obtain d where d: "d \<in> set dfs" "c \<in> set (columns d)"
      by auto
    from extract_all_Inr [OF dfs] d(1) obtain f where "f \<in> set files"
      "extract_completed_orders L f = Inr d"
      by blast
    with nowhere d(2) show False by blast
  qed
  then obtain e where "selected L files = Inl e" by (cases "selected L files") auto
  then show ?thesis by (simp add: load_and_clean_data_def cleaned_def)
qed

text \<open>
  The filter on \<open>Status\<close> comes first and needs its column in the same way.
\<close>

lemma filled_Inr: "filled df = Inr df' \<Longrightarrow> ''Status'' \<in> set (columns df)"
  by (auto simp: filled_def split: if_splits)

lemma missing_status_fails:
  assumes nowhere: "\<forall>f\<in>set files. \<forall>df. extract_completed_orders L f = Inr df \<longrightarrow>
      ''Status'' \<notin> set (columns df)"
  shows "\<exists>e. load_and_clean_data L now files = Inl e"
proof -
  have "selected L files \<noteq> Inr raws" for raws
  proof
    assume "selected L files = Inr raws"
    then obtain dfs df_all df' where dfs: "extract_all L files = Inr dfs"
      and cat: "concat_frames dfs = Inr df_all"
      and fil: "filled df_all = Inr df'"
      by (auto simp: selected_def and_then_Inr_iff)
    from filled_Inr [OF fil] concat_frames_columns [OF cat]
    obtain d where d: "d \<in> set dfs" "''Status'' \<in> set (columns d)" by auto
    from extract_all_Inr [OF dfs] d(1) obtain f where "f \<in> set files"
      "extract_completed_orders L f = Inr d"
      by blast
    with nowhere d(2) show False by blast
  qed
  then obtain e where "selected L files = Inl e" by (cases "selected L files") auto
  then show ?thesis by (simp add: load_and_clean_data_def cleaned_def)
qed

subsection \<open>The clock and the memo\<close>

text \<open>
  A run that parses reads the clock in \<open>to_datetime\<close> and nowhere else in the model, where
  \<open>read_csv\<close>, \<open>to_numeric\<close> and \<open>argsort\<close> are functions of their arguments.
\<close>

lemma parse_clock_congruence:
  assumes "\<forall>raws. selected L files = Inr raws \<longrightarrow>
             (\<forall>c\<in>set (map time_cell raws).
                to_datetime L t1 (map time_cell raws) c = to_datetime L t2 (map time_cell raws) c)"
  shows "load_and_clean_data L t1 files = load_and_clean_data L t2 files"
proof (cases "selected L files")
  case (Inl e)
  then show ?thesis by (simp add: load_and_clean_data_def cleaned_def)
next
  case (Inr raws)
  with assms have "\<forall>r\<in>set raws.
      to_datetime L t1 (map time_cell raws) (time_cell r) =
      to_datetime L t2 (map time_cell raws) (time_cell r)" by simp
  then have "coerce L t1 raws = coerce L t2 raws" by (simp add: coerce_def)
  with Inr show ?thesis by (simp add: load_and_clean_data_def cleaned_def)
qed

text \<open>A run leaves its table in the memo, and a run that finds a table returns it.\<close>

lemma cached_hit:
  "m files = Some out \<Longrightarrow> cached_load_and_clean_data L m now files = (Inr out, m)"
  by (simp add: cached_load_and_clean_data_def)

lemma cached_stores:
  assumes "cached_load_and_clean_data L m now files = (Inr out, m')"
  shows "m' files = Some out"
proof (cases "m files")
  case None
  with assms show ?thesis
    by (cases "load_and_clean_data L now files") (auto simp: cached_load_and_clean_data_def)
next
  case (Some out')
  with assms show ?thesis by (auto simp: cached_load_and_clean_data_def)
qed

text \<open>
  C8, amended: the normalization is not a function of the file bytes alone. A run returns
  the table that the memo holds for the file set, if an earlier run left one, and
  otherwise parses the bytes, where \<open>to_datetime\<close> reads the clock. Of two runs on the same
  file set (same bytes, same order): if the first returned a sequence, a second run
  on the memo the first left returns the identical sequence and leaves the memo as it
  is, whatever the clock reads by then; and two runs on the same memo return
  identical results whenever \<open>to_datetime\<close> gives every cell of the run's time column the
  same timestamp under both clock readings, \<open>read_csv\<close>, \<open>to_numeric\<close> and \<open>argsort\<close> being
  functions of their arguments.
\<close>

theorem renormalize_same_files:
  "(cached_load_and_clean_data L m t1 files = (Inr out, m') \<longrightarrow>
      cached_load_and_clean_data L m' t2 files = (Inr out, m')) \<and>
   ((\<forall>raws. selected L files = Inr raws \<longrightarrow>
        (\<forall>c\<in>set (map time_cell raws).
           to_datetime L t1 (map time_cell raws) c = to_datetime L t2 (map time_cell raws) c)) \<longrightarrow>
      cached_load_and_clean_data L m t1 files = cached_load_and_clean_data L m t2 files)"
proof (intro conjI impI)
  assume "cached_load_and_clean_data L m t1 files = (Inr out, m')"
  then have "m' files = Some out" by (rule cached_stores)
  then show "cached_load_and_clean_data L m' t2 files = (Inr out, m')" by (rule cached_hit)
next
  assume "\<forall>raws. selected L files = Inr raws \<longrightarrow>
        (\<forall>c\<in>set (map time_cell raws).
           to_datetime L t1 (map time_cell raws) c = to_datetime L t2 (map time_cell raws) c)"
  then have "load_and_clean_data L t1 files = load_and_clean_data L t2 files"
    by (rule parse_clock_congruence)
  then show "cached_load_and_clean_data L m t1 files = cached_load_and_clean_data L m t2 files"
    unfolding cached_load_and_clean_data_def by (simp only:)
qed

subsection \<open>The example runs\<close>

lemma extract_ref_lines:
  assumes plain: "list_all plain_line (m # h # rs)"
    and marker: "contains ''Completed Orders'' m"
    and names: "distinct (header_of_line h)"
    and ne: "list_all (\<lambda>l. l \<noteq> []) rs"
  shows "extract_completed_orders pandas_ref (lines_text (m # h # rs)) =
         and_then (read_csv_rows rs (header_of_line h)) (\<lambda>cells.
           Inr \<lparr>columns = header_of_line h, rows = map (zip (header_of_line h)) cells\<rparr>)"
proof -
  from plain have p2: "list_all plain_line rs" by simp
  from ne have ne2: "\<forall>l\<in>set rs. l \<noteq> []" by (simp add: list_all_iff)
  show ?thesis
    unfolding extract_lines_text [OF plain marker names]
    by (simp add: pandas_ref_def read_csv_ref_join [OF p2 ne2])
qed

lemma fills_extract:
  "extract_completed_orders pandas_ref fills_file =
     and_then (read_csv_rows fills_lines (header_of_line header9)) (\<lambda>cells.
       Inr \<lparr>columns = header_of_line header9, rows = map (zip (header_of_line header9)) cells\<rparr>)"
  unfolding fills_file_def by (rule extract_ref_lines; code_simp)

lemma fills_selected:
  "selected pandas_ref [fills_file] =
     Inr [\<lparr>account_cell = Str ''A1'', side_cell = Str ''B'',
         symbol_cell = Str ''ESZ4'', price_cell = Num 100,
         quantity_cell = Num 1, time_cell = Str ''2024-01-15 09:30:00'',
         commission_cell = Num (1 / 2), pnl_cell = NaN\<rparr>,
      \<lparr>account_cell = Str ''A1'', side_cell = Str ''S'',
         symbol_cell = Str ''ESZ4'', price_cell = Num 101,
         quantity_cell = Num 1, time_cell = Str ''2024-01-15 09:29:00'',
         commission_cell = Num (1 / 2), pnl_cell = Num (25 / 2)\<rparr>,
      \<lparr>account_cell = Str ''A1'', side_cell = Str ''X'',
         symbol_cell = Str ''ESZ4'', price_cell = Num 101,
         quantity_cell = Num 1, time_cell = Str ''2024-01-15 09:28:00'',
         commission_cell = Num (1 / 2), pnl_cell = Num (25 / 2)\<rparr>,
      \<lparr>account_cell = Str ''A1'', side_cell = Str ''B'',
         symbol_cell = Str ''ESZ4'', price_cell = Num 101,
         quantity_cell = Num 1, time_cell = Str ''bad'',
         commission_cell = Num (1 / 2), pnl_cell = Num (25 / 2)\<rparr>]"
  unfolding selected_def extract_all.simps fills_extract by code_simp

lemma fills_cleaned: "cleaned pandas_ref now [fills_file] = Inr [fill_buy, fill_sell]"
  unfolding cleaned_def fills_selected by code_simp

lemma fills_load: "load_and_clean_data pandas_ref now [fills_file] = Inr [fill_sell, fill_buy]"
  unfolding load_and_clean_data_def fills_cleaned by code_simp

lemma one_fill_frame:
  "extract_completed_orders pandas_ref one_fill_file =
     Inr \<lparr>columns =
        [''Account'', ''Buy/Sell'', ''Symbol'', ''Avg Fill Price'',
         ''Qty To Fill'', ''Update Time (CST)'', ''Commission Fill Rate'',
         ''Closed Profit/Loss'', ''Status''],
        rows =
          [[(''Account'', Str ''A1''), (''Buy/Sell'', Str ''B''),
            (''Symbol'', Str ''ESZ4''), (''Avg Fill Price'', Num 100),
            (''Qty To Fill'', Num 1),
            (''Update Time (CST)'', Str ''2024-01-15 09:30:00''),
            (''Commission Fill Rate'', Num (1 / 2)),
            (''Closed Profit/Loss'', Num 7),
            (''Status'', Str ''Filled'')]]\<rparr>"
proof -
  have "extract_completed_orders pandas_ref one_fill_file =
     and_then (read_csv_rows [''A1,B,ESZ4,100,1,2024-01-15 09:30:00,0.5,7,Filled'']
       (header_of_line header9)) (\<lambda>cells.
       Inr \<lparr>columns = header_of_line header9, rows = map (zip (header_of_line header9)) cells\<rparr>)"
    unfolding one_fill_file_def by (rule extract_ref_lines; code_simp)
  then show ?thesis by code_simp
qed

lemma no_symbol_frame:
  "extract_completed_orders pandas_ref no_symbol_file =
     Inr \<lparr>columns =
        [''Account'', ''Buy/Sell'', ''Avg Fill Price'', ''Qty To Fill'',
         ''Update Time (CST)'', ''Commission Fill Rate'',
         ''Closed Profit/Loss'', ''Status''],
        rows =
          [[(''Account'', Str ''A2''), (''Buy/Sell'', Str ''S''),
            (''Avg Fill Price'', Num 101), (''Qty To Fill'', Num 2),
            (''Update Time (CST)'', Str ''2024-01-15 09:29:00''),
            (''Commission Fill Rate'', Num (1 / 2)),
            (''Closed Profit/Loss'', Num (- 3)),
            (''Status'', Str ''Filled'')]]\<rparr>"
proof -
  have "extract_completed_orders pandas_ref no_symbol_file =
     and_then (read_csv_rows [''A2,S,101,2,2024-01-15 09:29:00,0.5,-3,Filled'']
       (header_of_line header8)) (\<lambda>cells.
       Inr \<lparr>columns = header_of_line header8, rows = map (zip (header_of_line header8)) cells\<rparr>)"
    unfolding no_symbol_file_def by (rule extract_ref_lines; code_simp)
  then show ?thesis by code_simp
qed

lemma mixed_headers_load:
  "load_and_clean_data pandas_ref now [one_fill_file, no_symbol_file] =
     Inr [\<lparr>account = Str ''A2'', side = Some Sell, symbol = NaN,
         price = Some 101, quantity = Some 2,
         timestamp = Some 1705310940000000000, commission = 1 / 2,
         profit_loss = Some (- 3)\<rparr>,
      \<lparr>account = Str ''A1'', side = Some Buy, symbol = Str ''ESZ4'',
         price = Some 100, quantity = Some 1,
         timestamp = Some 1705311000000000000, commission = 1 / 2,
         profit_loss = Some 7\<rparr>]"
  unfolding load_and_clean_data_def cleaned_def selected_def extract_all.simps
    one_fill_frame no_symbol_frame
  by code_simp

lemma now_load:
  "load_and_clean_data pandas_ref now [now_file] =
     Inr [\<lparr>account = Str ''A1'', side = Some Buy, symbol = Str ''ESZ4'',
         price = Some 100, quantity = Some 1, timestamp = Some now,
         commission = 1 / 2, profit_loss = Some 7\<rparr>]"
proof -
  have e: "extract_completed_orders pandas_ref now_file =
     and_then (read_csv_rows [''A1,B,ESZ4,100,1,now,0.5,7,Filled''] (header_of_line header9))
       (\<lambda>cells.
       Inr \<lparr>columns = header_of_line header9, rows = map (zip (header_of_line header9)) cells\<rparr>)"
    unfolding now_file_def by (rule extract_ref_lines; code_simp)
  show ?thesis
    unfolding load_and_clean_data_def cleaned_def selected_def extract_all.simps e
    by code_simp
qed

lemma ties_extract:
  "extract_completed_orders pandas_ref ties_file =
     and_then (read_csv_rows ties_lines (header_of_line header9)) (\<lambda>cells.
       Inr \<lparr>columns = header_of_line header9, rows = map (zip (header_of_line header9)) cells\<rparr>)"
  unfolding ties_file_def by (rule extract_ref_lines; code_simp)

lemma ties_cleaned: "cleaned pandas_ref now [ties_file] = Inr (map tie [0..<18])"
  unfolding cleaned_def selected_def extract_all.simps ties_extract by code_simp

lemma ties_sorted:
  "sort_values pandas_ref (map tie [0..<18]) =
     Inr (map tie [0, 15, 14, 13, 12, 11, 10, 9, 8, 7, 6, 5, 4, 3, 2, 1, 16, 17])"
  by code_simp

text \<open>C4 on \<open>fills_file\<close>: the two complete fills are kept, the three other orders are not.\<close>

theorem normalized_complete_witness:
  "load_and_clean_data pandas_ref 0 [fills_file] = Inr [fill_sell, fill_buy] \<and>
   map timestamp [fill_sell, fill_buy] = [Some 1705310940000000000, Some 1705311000000000000] \<and>
   map price [fill_sell, fill_buy] = [Some 101, Some 100] \<and>
   map side [fill_sell, fill_buy] = [Some Sell, Some Buy]"
  using normalized_complete [OF fills_load [of 0]]
  by (simp add: fills_load fill_sell_def fill_buy_def)

text \<open>
  C2, amended, on \<open>fills_file\<close>: the fill of 09:29 comes before the fill of 09:30, which
  stood before it in the file.
\<close>

theorem normalized_sorted_witness:
  "cleaned pandas_ref 0 [fills_file] = Inr [fill_buy, fill_sell] \<and>
   load_and_clean_data pandas_ref 0 [fills_file] = Inr [fill_sell, fill_buy] \<and>
   map timestamp [fill_sell, fill_buy] = map Some [1705310940000000000, 1705311000000000000]"
proof -
  have lib: "is_argsort (non_nans (map timestamp [fill_buy, fill_sell]))
      (argsort pandas_ref (non_nans (map timestamp [fill_buy, fill_sell])))"
    by code_simp
  from normalized_sorted [OF fills_cleaned [of 0] lib] show ?thesis
    by (simp add: fills_cleaned fills_load fill_sell_def fill_buy_def)
qed

text \<open>
  C2, as stated, on \<open>ties_file\<close>: all eighteen fills are complete and have the same
  timestamp, so a stable sort would return them as they stand in the file, prices
  \<open>0, 1, \<dots>, 17\<close>. The result has the fill with price 15 second and the fill with price
  1 sixteenth.
\<close>

theorem stable_order_counterexample:
  "cleaned pandas_ref 0 [ties_file] = Inr (map tie [0..<18]) \<and>
   map timestamp (map tie [0..<18]) = replicate 18 (Some 1705311000000000000) \<and>
   load_and_clean_data pandas_ref 0 [ties_file] =
     Inr (map tie [0, 15, 14, 13, 12, 11, 10, 9, 8, 7, 6, 5, 4, 3, 2, 1, 16, 17]) \<and>
   load_and_clean_data pandas_ref 0 [ties_file] \<noteq> Inr (map tie [0..<18])"
proof -
  have t: "map timestamp (map tie [0..<18]) = replicate 18 (Some 1705311000000000000)"
    by code_simp
  have l: "load_and_clean_data pandas_ref 0 [ties_file] =
     Inr (map tie [0, 15, 14, 13, 12, 11, 10, 9, 8, 7, 6, 5, 4, 3, 2, 1, 16, 17])"
    by (simp add: load_and_clean_data_def ties_cleaned ties_sorted)
  have d: "map tie [0, 15, 14, 13, 12, 11, 10, 9, 8, 7, 6, 5, 4, 3, 2, 1, 16, 17] \<noteq> map tie [0..<18]"
    by code_simp
  from t l d show ?thesis by (simp only: ties_cleaned) simp
qed

text \<open>C7, amended, on \<open>no_symbol_file\<close> alone: no header has \<open>Symbol\<close>, the run fails.\<close>

theorem missing_everywhere_fails_witness:
  "isl (load_and_clean_data pandas_ref 0 [no_symbol_file])"
proof -
  have c: "''Symbol'' \<in> set required_columns" by (simp add: required_columns_def)
  have n: "\<forall>f\<in>set [no_symbol_file]. \<forall>df. extract_completed_orders pandas_ref f = Inr df \<longrightarrow>
      ''Symbol'' \<notin> set (columns df)"
    by (auto simp: no_symbol_frame)
  from missing_everywhere_fails [OF c n, of 0] show ?thesis by auto
qed

text \<open>
  C7, as stated, on \<open>one_fill_file\<close> and \<open>no_symbol_file\<close> together: the second file's
  header lacks \<open>Symbol\<close>, and the run returns both fills, the second file's with a
  missing symbol.
\<close>

theorem missing_somewhere_counterexample:
  "map_sum id columns (extract_completed_orders pandas_ref no_symbol_file) =
     Inr [''Account'', ''Buy/Sell'', ''Avg Fill Price'', ''Qty To Fill'',
          ''Update Time (CST)'', ''Commission Fill Rate'', ''Closed Profit/Loss'', ''Status''] \<and>
   load_and_clean_data pandas_ref 0 [one_fill_file, no_symbol_file] =
     Inr [\<lparr>account = Str ''A2'', side = Some Sell, symbol = NaN,
         price = Some 101, quantity = Some 2,
         timestamp = Some 1705310940000000000, commission = 1 / 2,
         profit_loss = Some (- 3)\<rparr>,
      \<lparr>account = Str ''A1'', side = Some Buy, symbol = Str ''ESZ4'',
         price = Some 100, quantity = Some 1,
         timestamp = Some 1705311000000000000, commission = 1 / 2,
         profit_loss = Some 7\<rparr>]"
  by (simp add: no_symbol_frame mixed_headers_load)

lemma now_fill_load: "load_and_clean_data pandas_ref now [now_file] = Inr [now_fill now]"
  by (simp add: now_load now_fill_def)

lemma now_fill_first_run:
  "cached_load_and_clean_data pandas_ref Map.empty now [now_file] =
     (Inr [now_fill now], Map.empty([now_file] \<mapsto> [now_fill now]))"
  by (simp add: cached_load_and_clean_data_def now_fill_load)

text \<open>
  C8, as stated, on \<open>now_file\<close>: the same bytes, parsed at the clock readings 0 and 1,
  give two different sequences, with the function alone and through an empty memo; and
  at one and the same clock reading the run on the memo that a run at reading 0 left
  differs from the run on an empty memo.
\<close>

theorem same_bytes_counterexample:
  "load_and_clean_data pandas_ref 0 [now_file] \<noteq> load_and_clean_data pandas_ref 1 [now_file] \<and>
   fst (cached_load_and_clean_data pandas_ref Map.empty 0 [now_file]) \<noteq>
     fst (cached_load_and_clean_data pandas_ref Map.empty 1 [now_file]) \<and>
   fst (cached_load_and_clean_data pandas_ref
          (snd (cached_load_and_clean_data pandas_ref Map.empty 0 [now_file])) 1 [now_file]) \<noteq>
     fst (cached_load_and_clean_data pandas_ref Map.empty 1 [now_file])"
  by (simp add: now_fill_first_run now_fill_load cached_load_and_clean_data_def now_fill_def)

text \<open>
  C8, amended: on \<open>now_file\<close>, the run at clock reading 0 leaves its table in the memo and
  the run at reading 1 returns that table, with the timestamp 0; on \<open>fills_file\<close>, where
  no time cell refers to the clock, the runs at readings 0 and 1 on an empty memo agree.
\<close>

theorem renormalize_same_files_witness:
  "cached_load_and_clean_data pandas_ref Map.empty 0 [now_file] =
     (Inr [now_fill 0], Map.empty([now_file] \<mapsto> [now_fill 0])) \<and>
   cached_load_and_clean_data pandas_ref (Map.empty([now_file] \<mapsto> [now_fill 0])) 1 [now_file] =
     (Inr [now_fill 0], Map.empty([now_file] \<mapsto> [now_fill 0])) \<and>
   cached_load_and_clean_data pandas_ref Map.empty 0 [fills_file] =
     cached_load_and_clean_data pandas_ref Map.empty 1 [fills_file]"
proof -
  have "\<forall>raws. selected pandas_ref [fills_file] = Inr raws \<longrightarrow>
      (\<forall>c\<in>set (map time_cell raws).
         to_datetime pandas_ref 0 (map time_cell raws) c =
         to_datetime pandas_ref 1 (map time_cell raws) c)"
    unfolding fills_selected by (simp add: pandas_ref_def to_datetime_ref_def)
  with renormalize_same_files [of pandas_ref Map.empty 0 "[fills_file]" _ _ 1]
  have fills: "cached_load_and_clean_data pandas_ref Map.empty 0 [fills_file] =
     cached_load_and_clean_data pandas_ref Map.empty 1 [fills_file]" by blast
  from renormalize_same_files [of pandas_ref Map.empty 0 "[now_file]" "[now_fill 0]"
      "Map.empty([now_file] \<mapsto> [now_fill 0])" 1] now_fill_first_run [of 0]
  have "cached_load_and_clean_data pandas_ref (Map.empty([now_file] \<mapsto> [now_fill 0])) 1 [now_file] =
     (Inr [now_fill 0], Map.empty([now_file] \<mapsto> [now_fill 0]))" by blast
  with fills now_fill_first_run [of 0] show ?thesis by blast
qed

end
